theory Spec2Isabelle
  imports Main "HOL-Library.AList"
begin

section \<open>Data model of the warehouse state\<close>

text \<open>
  The state is the dictionary built by \<open>parse_init\<close>. Coordinates are pairs of Python
  integers. Dictionaries that the engine only looks up by key are maps; the shelves
  dictionary is iterated in insertion order by Pickup and Putdown, so it is an
  association list (with pairwise distinct keys, as a dictionary has).
  A shelf dictionary loses its \<open>'pos'\<close> key while the shelf is carried: an optional field.
  The set of products is iterated by \<open>parse_init\<close>: it is the list of its elements,
  without duplicates, in the order of their first insertion.
\<close>

type_synonym coord = "int \<times> int"

record robot_data =
  pos :: coord
  carries :: "string option"

record shelf_data =
  shelf_pos :: "coord option"
  quantities :: "string \<rightharpoonup> int"

record order_data =
  station_id :: string
  requirements :: "string \<rightharpoonup> int"

record state =
  nodes :: "coord set"
  highways :: "coord set"
  picking_stations :: "string \<rightharpoonup> coord"
  robots :: "string \<rightharpoonup> robot_data"
  shelves :: "(string \<times> shelf_data) list"
  products :: "string list"
  orders :: "string \<rightharpoonup> order_data"

text \<open>
  The action dictionaries that \<open>parse_plan\<close> lets into a plan: the type tag with its
  arguments. The units of a deliver are read by \<open>\d+\<close>, a natural number; the
  displacements of a move by \<open>-?\d+\<close>.
\<close>

datatype action =
  Move int int
| Pickup
| Putdown
| Deliver string string nat

type_synonym action_info = "string \<times> action"

section \<open>The state update of one timestep\<close>

text \<open>Each warning that \<open>update_state\<close> prints when it ignores an action.\<close>

datatype warning =
  Unknown_robot
| Already_carrying
| No_shelf_found
| Putdown_carrying_nothing
| Putdown_on_highway
| Shelf_already_there
| Deliver_carrying_nothing
| Unknown_shelf
| Unknown_order
| Unknown_product
| Wrong_station
| Insufficient_quantity

datatype exn = KeyError | AttributeError | TypeError | IndexError

text \<open>
  What one iteration of the loop over the actions does: it writes into \<open>next_state\<close>
  (\<open>Done\<close>, with what \<open>next_state\<close> has become), prints a warning and leaves
  \<open>next_state\<close> as it is (\<open>Skipped\<close>), or raises (\<open>Raised\<close>).
\<close>

datatype 'a outcome =
  Done 'a
| Skipped warning
| Raised exn

text \<open>
  Python's truth value of \<open>current_carrying\<close> and of \<open>shelf_to_pickup\<close>: \<open>None\<close> and the
  empty string are false. The result is the identity when it is true.
\<close>

definition truthy :: "string option \<Rightarrow> string option" where
  "truthy v = (case v of None \<Rightarrow> None | Some s \<Rightarrow> if s = [] then None else Some s)"

text \<open>
  The loop of Pickup over \<open>current_state['shelves'].items()\<close>: the first shelf, in
  dictionary order, whose position is the robot's.
\<close>

fun shelf_to_pickup :: "(string \<times> shelf_data) list \<Rightarrow> coord \<Rightarrow> string option" where
  "shelf_to_pickup [] current_pos = None"
| "shelf_to_pickup ((shelf_id, shelf_data) # rest) current_pos =
     (if shelf_pos shelf_data = Some current_pos then Some shelf_id
      else shelf_to_pickup rest current_pos)"

text \<open>
  The loop of Putdown over \<open>next_state['shelves'].items()\<close>: is a shelf other than the
  carried one at the robot's position?
\<close>

fun occupied :: "(string \<times> shelf_data) list \<Rightarrow> coord \<Rightarrow> string \<Rightarrow> bool" where
  "occupied [] current_pos current_carrying = False"
| "occupied ((shelf_id, shelf_data) # rest) current_pos current_carrying =
     (if shelf_pos shelf_data = Some current_pos \<and> shelf_id \<noteq> current_carrying then True
      else occupied rest current_pos current_carrying)"

text \<open>An assignment to a field of \<open>next_state['shelves'][shelf_id]\<close>, when the key exists.\<close>

definition update_shelf ::
  "string \<Rightarrow> (shelf_data \<Rightarrow> shelf_data) \<Rightarrow> (string \<times> shelf_data) list \<Rightarrow> (string \<times> shelf_data) list"
where
  "update_shelf shelf_id f shs =
     (case map_of shs shelf_id of
        None \<Rightarrow> shs
      | Some shelf_data \<Rightarrow> AList.update shelf_id (f shelf_data) shs)"

definition pickup :: "state \<Rightarrow> state \<Rightarrow> string \<Rightarrow> robot_data \<Rightarrow> robot_data \<Rightarrow> state outcome" where
  "pickup current_state next_state robot_id robot_curr_state robot_next_state =
     (case truthy (carries robot_curr_state) of
        Some _ \<Rightarrow> Skipped Already_carrying
      | None \<Rightarrow>
          (case truthy (shelf_to_pickup (shelves current_state) (pos robot_curr_state)) of
             None \<Rightarrow> Skipped No_shelf_found
           | Some shelf_id \<Rightarrow>
               Done (next_state
                 \<lparr>robots := (robots next_state)
                    (robot_id \<mapsto> robot_next_state\<lparr>carries := Some shelf_id\<rparr>),
                  shelves := update_shelf shelf_id (\<lambda>sd. sd\<lparr>shelf_pos := None\<rparr>)
                    (shelves next_state)\<rparr>)))"

definition putdown :: "state \<Rightarrow> string \<Rightarrow> robot_data \<Rightarrow> robot_data \<Rightarrow> state outcome" where
  "putdown next_state robot_id robot_curr_state robot_next_state =
     (case truthy (carries robot_curr_state) of
        None \<Rightarrow> Skipped Putdown_carrying_nothing
      | Some current_carrying \<Rightarrow>
          if pos robot_curr_state \<in> highways next_state then Skipped Putdown_on_highway
          else if occupied (shelves next_state) (pos robot_curr_state) current_carrying
          then Skipped Shelf_already_there
          else
            Done (next_state
              \<lparr>robots := (robots next_state)
                 (robot_id \<mapsto> robot_next_state\<lparr>carries := None\<rparr>),
               shelves := update_shelf current_carrying
                 (\<lambda>sd. sd\<lparr>shelf_pos := Some (pos robot_curr_state)\<rparr>)
                 (shelves next_state)\<rparr>))"

text \<open>
  The requirement side of a successful deliver: decremented and floored at zero when the
  order lists the product, left as it is (with a warning only) when it does not.
\<close>

definition decrement_requirement :: "(string \<rightharpoonup> int) \<Rightarrow> string \<Rightarrow> nat \<Rightarrow> (string \<rightharpoonup> int)" where
  "decrement_requirement reqs product_id units =
     (case reqs product_id of
        None \<Rightarrow> reqs
      | Some r \<Rightarrow> reqs(product_id \<mapsto> (if r - int units < 0 then 0 else r - int units)))"

definition deliver :: "state \<Rightarrow> robot_data \<Rightarrow> string \<Rightarrow> string \<Rightarrow> nat \<Rightarrow> state outcome" where
  "deliver next_state robot_curr_state order_id product_id units =
     (case truthy (carries robot_curr_state) of
        None \<Rightarrow> Skipped Deliver_carrying_nothing
      | Some shelf_id_carried \<Rightarrow>
          (case map_of (shelves next_state) shelf_id_carried of
             None \<Rightarrow> Skipped Unknown_shelf
           | Some sd \<Rightarrow>
               (case orders next_state order_id of
                  None \<Rightarrow> Skipped Unknown_order
                | Some od \<Rightarrow>
                    (case quantities sd product_id of
                       None \<Rightarrow> Skipped Unknown_product
                     | Some current_shelf_qty \<Rightarrow>
                         let required_station_id = station_id od;
                             required_station_pos =
                               (if required_station_id \<noteq> []
                                then picking_stations next_state required_station_id
                                else None)
                         in
                           if Some (pos robot_curr_state) \<noteq> required_station_pos
                           then Skipped Wrong_station
                           else if current_shelf_qty < int units
                           then Skipped Insufficient_quantity
                           else
                             Done (next_state
                               \<lparr>shelves := AList.update shelf_id_carried
                                  (sd\<lparr>quantities := (quantities sd)
                                     (product_id \<mapsto> current_shelf_qty - int units)\<rparr>)
                                  (shelves next_state),
                                orders := (orders next_state)
                                  (order_id \<mapsto> od\<lparr>requirements :=
                                     decrement_requirement (requirements od) product_id units\<rparr>)
                               \<rparr>)))))"

text \<open>
  The body of the loop. The robot is looked up in \<open>current_state\<close> with \<open>get\<close> (an unknown
  robot is skipped) and then in \<open>next_state\<close> by subscript, which raises when the key
  is missing.
\<close>

definition apply_action :: "state \<Rightarrow> state \<Rightarrow> action_info \<Rightarrow> state outcome" where
  "apply_action current_state next_state action_info =
     (case action_info of (robot_id, act) \<Rightarrow>
        (case robots current_state robot_id of
           None \<Rightarrow> Skipped Unknown_robot
         | Some robot_curr_state \<Rightarrow>
             (case robots next_state robot_id of
                None \<Rightarrow> Raised KeyError
              | Some robot_next_state \<Rightarrow>
                  (case act of
                     Move dx dy \<Rightarrow>
                       Done (next_state\<lparr>robots := (robots next_state)
                         (robot_id \<mapsto> robot_next_state
                            \<lparr>pos := (fst (pos robot_curr_state) + dx,
                                     snd (pos robot_curr_state) + dy)\<rparr>)\<rparr>)
                   | Pickup \<Rightarrow>
                       pickup current_state next_state robot_id robot_curr_state robot_next_state
                   | Putdown \<Rightarrow>
                       putdown next_state robot_id robot_curr_state robot_next_state
                   | Deliver order_id product_id units \<Rightarrow>
                       deliver next_state robot_curr_state order_id product_id units))))"

text \<open>The loop over \<open>actions_at_this_step\<close>: \<open>continue\<close> after a warning, stop at an exception.\<close>

fun apply_actions :: "state \<Rightarrow> state \<Rightarrow> action_info list \<Rightarrow> exn + state" where
  "apply_actions current_state next_state [] = Inr next_state"
| "apply_actions current_state next_state (action_info # rest) =
     (case apply_action current_state next_state action_info of
        Done next_state' \<Rightarrow> apply_actions current_state next_state' rest
      | Skipped w \<Rightarrow> apply_actions current_state next_state rest
      | Raised e \<Rightarrow> Inl e)"

text \<open>
  \<open>update_state\<close>: \<open>next_state\<close> starts as a deep copy of \<open>current_state\<close>, a value equal
  to it.
\<close>

definition update_state :: "state \<Rightarrow> action_info list \<Rightarrow> exn + state" where
  "update_state current_state actions_at_this_step =
     apply_actions current_state current_state actions_at_this_step"

section \<open>The replay loop\<close>

text \<open>
  The loop of the main program over \<open>range(1, max_time + 1)\<close>: one call of
  \<open>update_state\<close> per timestep, on \<open>plan.get(t, [])\<close>. The first argument is the
  timestep, the second the number of timesteps left.
\<close>

type_synonym plan = "nat \<rightharpoonup> action_info list"

definition plan_get :: "plan \<Rightarrow> nat \<Rightarrow> action_info list" where
  "plan_get pl t = (case pl t of None \<Rightarrow> [] | Some acts \<Rightarrow> acts)"

fun replay :: "plan \<Rightarrow> nat \<Rightarrow> nat \<Rightarrow> state \<Rightarrow> exn + state" where
  "replay pl t 0 current_state = Inr current_state"
| "replay pl t (Suc n) current_state =
     (case update_state current_state (plan_get pl t) of
        Inl e \<Rightarrow> Inl e
      | Inr next_state \<Rightarrow> replay pl (t + 1) n next_state)"

section \<open>The scenario of the specification\<close>

definition scenario_state :: state where
  "scenario_state =
     \<lparr>nodes = {(1, 1), (2, 2)},
      highways = {},
      picking_stations = [''st1'' \<mapsto> (2, 2)],
      robots = [''r1'' \<mapsto> \<lparr>pos = (1, 1), carries = None\<rparr>],
      shelves = [(''s1'', \<lparr>shelf_pos = Some (1, 1), quantities = [''p1'' \<mapsto> 5]\<rparr>)],
      products = [''p1''],
      orders = [''o1'' \<mapsto> \<lparr>station_id = ''st1'', requirements = [''p1'' \<mapsto> 3]\<rparr>]\<rparr>"

definition scenario_plan :: plan where
  "scenario_plan =
     [1 \<mapsto> [(''r1'', Pickup)],
      2 \<mapsto> [(''r1'', Move 1 1)],
      3 \<mapsto> [(''r1'', Deliver ''o1'' ''p1'' 3)]]"

text \<open>
  The end state that the scenario is said to reach: \<open>r1\<close> at (2,2) carrying nothing,
  \<open>s1\<close> at (2,2) with 2 units of \<open>p1\<close>, and no unit of \<open>p1\<close> left to deliver for \<open>o1\<close>.
\<close>

definition scenario_expected :: "state \<Rightarrow> bool" where
  "scenario_expected s =
     (robots s ''r1'' = Some \<lparr>pos = (2, 2), carries = None\<rparr> \<and>
      map_option shelf_pos (map_of (shelves s) ''s1'') = Some (Some (2, 2)) \<and>
      map_option (\<lambda>sd. quantities sd ''p1'') (map_of (shelves s) ''s1'') = Some (Some 2) \<and>
      map_option (\<lambda>od. requirements od ''p1'') (orders s ''o1'') = Some (Some 0))"

text \<open>The end state that the replay computes: the plan has no Putdown.\<close>

definition scenario_end :: state where
  "scenario_end =
     \<lparr>nodes = {(1, 1), (2, 2)},
      highways = {},
      picking_stations = [''st1'' \<mapsto> (2, 2)],
      robots = [''r1'' \<mapsto> \<lparr>pos = (2, 2), carries = Some ''s1''\<rparr>],
      shelves = [(''s1'', \<lparr>shelf_pos = None, quantities = [''p1'' \<mapsto> 2]\<rparr>)],
      products = [''p1''],
      orders = [''o1'' \<mapsto> \<lparr>station_id = ''st1'', requirements = [''p1'' \<mapsto> 0]\<rparr>]\<rparr>"

section \<open>Moves of one robot in an action list\<close>

text \<open>Is the action a Move by robot \<open>r\<close>?\<close>

fun moves :: "string \<Rightarrow> action_info \<Rightarrow> bool" where
  "moves r (robot_id, Move dx dy) = (robot_id = r)"
| "moves r (robot_id, Pickup) = False"
| "moves r (robot_id, Putdown) = False"
| "moves r (robot_id, Deliver order_id product_id units) = False"

section \<open>The rejection conditions of Deliver, as specified\<close>

text \<open>
  The conditions under which a Deliver(order, product, units) by a robot is said to be
  rejected, in the order in which the specification lists them: the robot carries
  nothing; the carried shelf is not a known shelf; the order is not a known order; the
  product is not among the keys of the carried shelf's quantities; the robot's position
  is not the position of the picking station bound to the order (a failed station lookup
  included); the shelf's quantity of the product is less than the units.
\<close>

definition deliver_rejected :: "state \<Rightarrow> robot_data \<Rightarrow> string \<Rightarrow> string \<Rightarrow> nat \<Rightarrow> bool" where
  "deliver_rejected s rb order_id product_id units =
     (case carries rb of
        None \<Rightarrow> True
      | Some shelf_id \<Rightarrow>
          (case map_of (shelves s) shelf_id of
             None \<Rightarrow> True
           | Some sd \<Rightarrow>
               (case orders s order_id of
                  None \<Rightarrow> True
                | Some od \<Rightarrow>
                    (case quantities sd product_id of
                       None \<Rightarrow> True
                     | Some q \<Rightarrow>
                         picking_stations s (station_id od) \<noteq> Some (pos rb) \<or>
                         q < int units))))"

text \<open>
  The state after an accepted Deliver, as specified: the shelf's quantity of the product
  decremented by the units, the order's requirement for it decremented by the units and
  floored at zero (the requirements as they are when they do not list the product).
\<close>

definition delivered ::
  "state \<Rightarrow> string \<Rightarrow> shelf_data \<Rightarrow> int \<Rightarrow> string \<Rightarrow> order_data \<Rightarrow> string \<Rightarrow> nat \<Rightarrow> state"
where
  "delivered s shelf_id sd q order_id od product_id units =
     s\<lparr>shelves := AList.update shelf_id
          (sd\<lparr>quantities := (quantities sd)(product_id \<mapsto> q - int units)\<rparr>) (shelves s),
       orders := (orders s)(order_id \<mapsto> od\<lparr>requirements :=
          (case requirements od product_id of
             None \<Rightarrow> requirements od
           | Some v \<Rightarrow> (requirements od)(product_id \<mapsto> max 0 (v - int units)))\<rparr>)\<rparr>"

section \<open>A shelf parked on a highway cell\<close>

text \<open>
  The state of the scenario with the cell (1,1) declared a highway: the fact file may
  place a shelf on such a cell. The second state is the first after a Pickup by \<open>r1\<close>.
\<close>

definition highway_state :: state where
  "highway_state = scenario_state\<lparr>highways := {(1, 1)}\<rparr>"

definition highway_carried :: state where
  "highway_carried =
     highway_state
       \<lparr>robots := [''r1'' \<mapsto> \<lparr>pos = (1, 1), carries = Some ''s1''\<rparr>],
        shelves := [(''s1'', \<lparr>shelf_pos = None, quantities = [''p1'' \<mapsto> 5]\<rparr>)]\<rparr>"

section \<open>Shelves and their carriers\<close>

text \<open>
  The shelf a robot carries (\<open>None\<close> for an unknown robot, \<open>Some None\<close> for a robot that
  carries nothing) and the position of a shelf (\<open>None\<close> for an unknown shelf, \<open>Some None\<close>
  for a shelf without a position).
\<close>

definition carrier :: "state \<Rightarrow> string \<Rightarrow> string option option" where
  "carrier s r = map_option carries (robots s r)"

definition placed :: "state \<Rightarrow> string \<Rightarrow> coord option option" where
  "placed s sh = map_option shelf_pos (map_of (shelves s) sh)"

text \<open>No two distinct robots carry the same shelf.\<close>

definition exclusive :: "state \<Rightarrow> bool" where
  "exclusive s =
     (\<forall>r1 r2 sh.
        carrier s r1 = Some (Some sh) \<longrightarrow> carrier s r2 = Some (Some sh) \<longrightarrow> r1 = r2)"

text \<open>A shelf that a robot carries has no position of its own.\<close>

definition carried_unplaced :: "state \<Rightarrow> bool" where
  "carried_unplaced s =
     (\<forall>r sh p. carrier s r = Some (Some sh) \<longrightarrow> placed s sh \<noteq> Some (Some p))"

text \<open>
  The states the engine is meant to start from: the keys of the shelves dictionary are
  pairwise distinct, no two robots carry the same shelf, and a carried shelf has no
  position. A parsed initial state, where no robot carries anything, is one.
\<close>

definition carrying_ok :: "state \<Rightarrow> bool" where
  "carrying_ok s =
     (distinct (map fst (shelves s)) \<and> exclusive s \<and> carried_unplaced s)"

text \<open>
  Among the actions of one timestep, no two distinct robots that stand on the same
  position at the start of the timestep both perform a Pickup.
\<close>

definition separate_pickups :: "state \<Rightarrow> action_info set \<Rightarrow> bool" where
  "separate_pickups s acts =
     (\<forall>r1 r2 rb1 rb2.
        (r1, Pickup) \<in> acts \<longrightarrow> (r2, Pickup) \<in> acts \<longrightarrow>
        robots s r1 = Some rb1 \<longrightarrow> robots s r2 = Some rb2 \<longrightarrow>
        pos rb1 = pos rb2 \<longrightarrow> r1 = r2)"

text \<open>
  The states reached from \<open>s0\<close> by calls of \<open>update_state\<close>, one per timestep, on action
  lists with separate pickups.
\<close>

inductive replayed :: "state \<Rightarrow> state \<Rightarrow> bool" for s0 :: state where
  replayed_start: "replayed s0 s0"
| replayed_step:
    "replayed s0 s \<Longrightarrow> separate_pickups s (set acts) \<Longrightarrow> update_state s acts = Inr s' \<Longrightarrow>
     replayed s0 s'"

text \<open>
  Where the carried shelf of a robot in \<open>next_state\<close> comes from: the robot carried it at
  the start of the timestep, or one of the actions already applied is its Pickup of
  that shelf, found at the robot's position in \<open>current_state\<close>.
\<close>

definition carry_origin :: "state \<Rightarrow> action_info set \<Rightarrow> state \<Rightarrow> bool" where
  "carry_origin cur applied nxt =
     (\<forall>r sh.
        carrier nxt r = Some (Some sh) \<longrightarrow>
        carrier cur r = Some (Some sh) \<or>
        ((r, Pickup) \<in> applied \<and>
         (\<exists>rc. robots cur r = Some rc \<and> placed cur sh = Some (Some (pos rc)))))"

text \<open>What the loop over the actions of one timestep keeps true of \<open>next_state\<close>.\<close>

definition carry_inv :: "state \<Rightarrow> action_info set \<Rightarrow> state \<Rightarrow> bool" where
  "carry_inv cur applied nxt =
     (distinct (map fst (shelves nxt)) \<and> exclusive nxt \<and> carried_unplaced nxt \<and>
      carry_origin cur applied nxt)"

text \<open>Two robots on one cell, with a shelf: the fact file may declare them so.\<close>

definition two_robots_state :: state where
  "two_robots_state =
     scenario_state\<lparr>robots :=
       [''r1'' \<mapsto> \<lparr>pos = (1, 1), carries = None\<rparr>, ''r2'' \<mapsto> \<lparr>pos = (1, 1), carries = None\<rparr>]\<rparr>"

definition both_carry_state :: state where
  "both_carry_state =
     two_robots_state
       \<lparr>robots :=
          [''r1'' \<mapsto> \<lparr>pos = (1, 1), carries = Some ''s1''\<rparr>,
           ''r2'' \<mapsto> \<lparr>pos = (1, 1), carries = Some ''s1''\<rparr>],
        shelves := [(''s1'', \<lparr>shelf_pos = None, quantities = [''p1'' \<mapsto> 5]\<rparr>)]\<rparr>"

text \<open>
  Two robots on two cells, each with a shelf on its cell, and the state after both have
  picked up in one timestep.
\<close>

definition two_shelves_state :: state where
  "two_shelves_state =
     scenario_state
       \<lparr>robots :=
          [''r1'' \<mapsto> \<lparr>pos = (1, 1), carries = None\<rparr>,
           ''r2'' \<mapsto> \<lparr>pos = (2, 2), carries = None\<rparr>],
        shelves :=
          [(''s1'', \<lparr>shelf_pos = Some (1, 1), quantities = [''p1'' \<mapsto> 5]\<rparr>),
           (''s2'', \<lparr>shelf_pos = Some (2, 2), quantities = [''p1'' \<mapsto> 1]\<rparr>)]\<rparr>"

definition two_carriers_state :: state where
  "two_carriers_state =
     two_shelves_state
       \<lparr>robots :=
          [''r1'' \<mapsto> \<lparr>pos = (1, 1), carries = Some ''s1''\<rparr>,
           ''r2'' \<mapsto> \<lparr>pos = (2, 2), carries = Some ''s2''\<rparr>],
        shelves :=
          [(''s1'', \<lparr>shelf_pos = None, quantities = [''p1'' \<mapsto> 5]\<rparr>),
           (''s2'', \<lparr>shelf_pos = None, quantities = [''p1'' \<mapsto> 1]\<rparr>)]\<rparr>"

section \<open>The parser of the initial facts\<close>

text \<open>
  A line of the fact file, after \<open>strip\<close>, by the branch of \<open>parse_init\<close> it takes: a
  blank or comment line, the first of the eight patterns it matches with the groups of
  the match (identifiers as strings, the \<open>\d+\<close> groups as the naturals that \<open>int\<close> reads),
  or no pattern at all.
\<close>

datatype init_line =
  Skipped_line
| Node_fact string nat nat
| Highway_fact string nat nat
| Station_fact string nat nat
| Robot_fact string nat nat
| Shelf_fact string nat nat
| Product_fact string string nat
| Order_station_fact string string
| Order_line_fact string string nat
| Unmatched_line string

text \<open>The local variables of \<open>parse_init\<close> during the loop over the lines.\<close>

record init_vars =
  init_state :: state
  max_x :: int
  max_y :: int
  shelf_quantities_temp :: "(string \<times> (string \<rightharpoonup> int)) list"
  order_reqs_temp :: "(string \<times> (string \<rightharpoonup> int)) list"
  order_station_temp :: "string \<rightharpoonup> string"

text \<open>
  \<open>temp[outer][inner] = v\<close> on a \<open>defaultdict\<close> of dictionaries: the inner dictionary is
  created empty when the outer key is new.
\<close>

definition store_nested ::
  "(string \<times> (string \<rightharpoonup> int)) list \<Rightarrow> string \<Rightarrow> string \<Rightarrow> int \<Rightarrow> (string \<times> (string \<rightharpoonup> int)) list"
where
  "store_nested temp outer inner v =
     AList.update outer
       ((case map_of temp outer of None \<Rightarrow> Map.empty | Some d \<Rightarrow> d)(inner \<mapsto> v)) temp"

fun parse_init_line :: "init_vars \<Rightarrow> init_line \<Rightarrow> init_vars" where
  "parse_init_line v Skipped_line = v"
| "parse_init_line v (Node_fact node_id x y) =
     v\<lparr>init_state := (init_state v)\<lparr>nodes := insert (int x, int y) (nodes (init_state v))\<rparr>,
       max_x := max (max_x v) (int x),
       max_y := max (max_y v) (int y)\<rparr>"
| "parse_init_line v (Highway_fact highway_id x y) =
     v\<lparr>init_state := (init_state v)
        \<lparr>highways := insert (int x, int y) (highways (init_state v))\<rparr>\<rparr>"
| "parse_init_line v (Station_fact station x y) =
     v\<lparr>init_state := (init_state v)
        \<lparr>picking_stations := (picking_stations (init_state v))(station \<mapsto> (int x, int y))\<rparr>\<rparr>"
| "parse_init_line v (Robot_fact robot_id x y) =
     v\<lparr>init_state := (init_state v)
        \<lparr>robots := (robots (init_state v))
           (robot_id \<mapsto> \<lparr>pos = (int x, int y), carries = None\<rparr>)\<rparr>\<rparr>"
| "parse_init_line v (Shelf_fact shelf_id x y) =
     v\<lparr>init_state := (init_state v)
        \<lparr>shelves :=
           (case map_of (shelves (init_state v)) shelf_id of
              None \<Rightarrow>
                AList.update shelf_id
                  \<lparr>shelf_pos = Some (int x, int y), quantities = Map.empty\<rparr>
                  (shelves (init_state v))
            | Some sd \<Rightarrow>
                AList.update shelf_id (sd\<lparr>shelf_pos := Some (int x, int y)\<rparr>)
                  (shelves (init_state v)))\<rparr>\<rparr>"
| "parse_init_line v (Product_fact product_id shelf_id qty) =
     v\<lparr>init_state := (init_state v)
        \<lparr>products := List.insert product_id (products (init_state v))\<rparr>,
       shelf_quantities_temp :=
         store_nested (shelf_quantities_temp v) shelf_id product_id (int qty)\<rparr>"
| "parse_init_line v (Order_station_fact order_id station) =
     v\<lparr>order_station_temp := (order_station_temp v)(order_id \<mapsto> station)\<rparr>"
| "parse_init_line v (Order_line_fact order_id product_id qty) =
     v\<lparr>init_state := (init_state v)
        \<lparr>products := List.insert product_id (products (init_state v))\<rparr>,
       order_reqs_temp :=
         store_nested (order_reqs_temp v) order_id product_id (int qty)\<rparr>"
| "parse_init_line v (Unmatched_line line) = v"

text \<open>
  The loop that links the quantities to the declared shelves; the quantities of a shelf
  that was never declared are dropped with a warning.
\<close>

definition link_shelf ::
  "string \<times> (string \<rightharpoonup> int) \<Rightarrow> (string \<times> shelf_data) list \<Rightarrow> (string \<times> shelf_data) list"
where
  "link_shelf entry shs =
     (case entry of (shelf_id, qs) \<Rightarrow>
        (case map_of shs shelf_id of
           None \<Rightarrow> shs
         | Some sd \<Rightarrow> AList.update shelf_id (sd\<lparr>quantities := qs\<rparr>) shs))"

text \<open>
  The loop that creates the orders; the lines of an order without a picking station are
  dropped with a warning.
\<close>

definition link_order ::
  "(string \<rightharpoonup> string) \<Rightarrow> string \<times> (string \<rightharpoonup> int) \<Rightarrow> (string \<rightharpoonup> order_data) \<Rightarrow>
   (string \<rightharpoonup> order_data)"
where
  "link_order stations entry ords =
     (case entry of (order_id, reqs) \<Rightarrow>
        (case stations order_id of
           None \<Rightarrow> ords
         | Some station \<Rightarrow> ords(order_id \<mapsto> \<lparr>station_id = station, requirements = reqs\<rparr>)))"

text \<open>\<open>d.setdefault(k, v)\<close>, and the loop \<open>for product_id in state['products']\<close> around it.\<close>

definition setdefault :: "(string \<rightharpoonup> int) \<Rightarrow> string \<Rightarrow> int \<Rightarrow> (string \<rightharpoonup> int)" where
  "setdefault d k v = (case d k of None \<Rightarrow> d(k \<mapsto> v) | Some _ \<Rightarrow> d)"

definition ensure_defaults :: "string list \<Rightarrow> (string \<rightharpoonup> int) \<Rightarrow> (string \<rightharpoonup> int)" where
  "ensure_defaults product_ids d = fold (\<lambda>product_id d'. setdefault d' product_id 0) product_ids d"

definition empty_state :: state where
  "empty_state =
     \<lparr>nodes = {}, highways = {}, picking_stations = Map.empty, robots = Map.empty,
      shelves = [], products = [], orders = Map.empty\<rparr>"

text \<open>
  \<open>parse_init\<close>, on the lines of the file, or on nothing when the file cannot be opened
  (the function then returns \<open>None, None\<close>). The loops over the shelves and over the
  orders of the state set the defaults of each entry; each touches its own entry only.
\<close>

definition parse_init :: "init_line list option \<Rightarrow> (state \<times> int \<times> int) option" where
  "parse_init file =
     (case file of
        None \<Rightarrow> None
      | Some lines \<Rightarrow>
          let v = fold (\<lambda>line v. parse_init_line v line) lines
                    \<lparr>init_state = empty_state, max_x = 0, max_y = 0,
                     shelf_quantities_temp = [], order_reqs_temp = [],
                     order_station_temp = Map.empty\<rparr>;
              st = init_state v;
              linked_shelves = fold link_shelf (shelf_quantities_temp v) (shelves st);
              linked_orders =
                fold (link_order (order_station_temp v)) (order_reqs_temp v) (orders st);
              state = st
                \<lparr>shelves :=
                   map (\<lambda>(shelf_id, sd).
                         (shelf_id,
                          sd\<lparr>quantities := ensure_defaults (products st) (quantities sd)\<rparr>))
                     linked_shelves,
                 orders :=
                   (\<lambda>order_id.
                      map_option
                        (\<lambda>od. od\<lparr>requirements :=
                                 ensure_defaults (products st) (requirements od)\<rparr>)
                        (linked_orders order_id))\<rparr>
          in Some (state, max_x v, max_y v))"

text \<open>The products that the product-quantity and order-line facts of a file mention.\<close>

fun line_products :: "init_line \<Rightarrow> string list" where
  "line_products (Product_fact product_id shelf_id qty) = [product_id]"
| "line_products (Order_line_fact order_id product_id qty) = [product_id]"
| "line_products _ = []"

definition product_universe :: "init_line list \<Rightarrow> string set" where
  "product_universe lines = set (concat (map line_products lines))"

text \<open>A small fact file: two shelves, one without quantities, and two orders.\<close>

definition sample_lines :: "init_line list" where
  "sample_lines =
     [Node_fact ''1'' 1 1, Node_fact ''2'' 2 2, Station_fact ''st1'' 2 2,
      Robot_fact ''r1'' 1 1, Shelf_fact ''s1'' 1 1, Shelf_fact ''s2'' 2 1,
      Product_fact ''p1'' ''s1'' 5, Product_fact ''p3'' ''s9'' 1,
      Order_station_fact ''o1'' ''st1'', Order_line_fact ''o1'' ''p2'' 3,
      Order_line_fact ''o2'' ''p4'' 7]"

section \<open>The parser of the plan\<close>

text \<open>
  The value that \<open>json.loads\<close> returns. A number is kept as an integer (a float acts here
  as any integer that is zero exactly when the float is); an object is the list of its
  entries.
\<close>

datatype json =
  JNull
| JBool bool
| JNum int
| JStr string
| JArr "json list"
| JObj "(string \<times> json) list"

text \<open>Python's truth value of a loaded value.\<close>

fun truth :: "json \<Rightarrow> bool" where
  "truth JNull = False"
| "truth (JBool b) = b"
| "truth (JNum n) = (n \<noteq> 0)"
| "truth (JStr s) = (s \<noteq> [])"
| "truth (JArr xs) = (xs \<noteq> [])"
| "truth (JObj kvs) = (kvs \<noteq> [])"

text \<open>\<open>d.get(key)\<close>: only a dictionary has the method.\<close>

fun json_get :: "json \<Rightarrow> string \<Rightarrow> exn + json option" where
  "json_get (JObj kvs) key = Inr (map_of kvs key)"
| "json_get _ key = Inl AttributeError"

text \<open>
  \<open>v[0]\<close>: the first element of a list, the first character of a string; the key 0 is
  in no loaded dictionary, and no other value has a subscript.
\<close>

fun first_item :: "json \<Rightarrow> exn + json" where
  "first_item (JArr (x # xs)) = Inr x"
| "first_item (JArr []) = Inl IndexError"
| "first_item (JStr (c # cs)) = Inr (JStr [c])"
| "first_item (JStr []) = Inl IndexError"
| "first_item (JObj kvs) = Inl KeyError"
| "first_item _ = Inl TypeError"

text \<open>What \<open>for atom_str in plan_atoms\<close> iterates over.\<close>

fun items :: "json \<Rightarrow> exn + json list" where
  "items (JArr xs) = Inr xs"
| "items (JStr s) = Inr (map (\<lambda>c. JStr [c]) s)"
| "items (JObj kvs) = Inr (map (\<lambda>kv. JStr (fst kv)) kvs)"
| "items _ = Inl TypeError"

text \<open>
  The two pattern matchers of the plan parser are parameters: \<open>occurs\<close> is the match of
  an atom against the \<open>occurs\<close> pattern, with its groups (robot, action part, time);
  \<open>action_of\<close> is \<open>parse_action_string\<close>, with \<open>None\<close> for an action of type unknown.
  The loop over the atoms: \<open>re.match\<close> raises on an atom that is not a string; the
  maximum time counts an atom even when its action is unknown.
\<close>

fun plan_atoms ::
  "(string \<Rightarrow> (string \<times> string \<times> nat) option) \<Rightarrow> (string \<Rightarrow> action option) \<Rightarrow>
   json list \<Rightarrow> plan \<Rightarrow> nat \<Rightarrow> exn + (plan \<times> nat)"
where
  "plan_atoms occurs action_of [] pl max_time = Inr (pl, max_time)"
| "plan_atoms occurs action_of (JStr atom_str # rest) pl max_time =
     (case occurs atom_str of
        None \<Rightarrow> plan_atoms occurs action_of rest pl max_time
      | Some (robot_id, action_part, time) \<Rightarrow>
          plan_atoms occurs action_of rest
            (case action_of action_part of
               None \<Rightarrow> pl
             | Some act \<Rightarrow> pl(time \<mapsto> plan_get pl time @ [(robot_id, act)]))
            (max max_time time))"
| "plan_atoms occurs action_of (atom # rest) pl max_time = Inl TypeError"

text \<open>
  The body of the \<open>try\<close> of \<open>parse_plan\<close> after \<open>json.loads\<close>. A document without a true
  \<open>'Call'\<close>, or without a true \<open>'Witnesses'\<close> in its first call, gives a warning and
  the empty plan.
\<close>

definition read_plan ::
  "(string \<Rightarrow> (string \<times> string \<times> nat) option) \<Rightarrow> (string \<Rightarrow> action option) \<Rightarrow>
   json \<Rightarrow> exn + (plan \<times> nat)"
where
  "read_plan occurs action_of data =
     (case json_get data ''Call'' of
        Inl e \<Rightarrow> Inl e
      | Inr None \<Rightarrow> Inr (Map.empty, 0)
      | Inr (Some call) \<Rightarrow>
          if \<not> truth call then Inr (Map.empty, 0)
          else
            (case first_item call of
               Inl e \<Rightarrow> Inl e
             | Inr first_call \<Rightarrow>
                 (case json_get first_call ''Witnesses'' of
                    Inl e \<Rightarrow> Inl e
                  | Inr None \<Rightarrow> Inr (Map.empty, 0)
                  | Inr (Some witnesses) \<Rightarrow>
                      if \<not> truth witnesses then Inr (Map.empty, 0)
                      else
                        (case first_item witnesses of
                           Inl e \<Rightarrow> Inl e
                         | Inr witness \<Rightarrow>
                             (case json_get witness ''Value'' of
                                Inl e \<Rightarrow> Inl e
                              | Inr v \<Rightarrow>
                                  (case items (case v of None \<Rightarrow> JArr [] | Some a \<Rightarrow> a) of
                                     Inl e \<Rightarrow> Inl e
                                   | Inr atoms \<Rightarrow>
                                       plan_atoms occurs action_of atoms Map.empty 0))))))"

text \<open>
  The plan file: missing, not decodable as JSON, or a document. \<open>parse_plan\<close> returns
  \<open>None, 0\<close> for the first two and for every exception: the result \<open>None\<close> here.
\<close>

datatype plan_file =
  No_plan_file
| Not_json
| Plan_document json

definition parse_plan ::
  "(string \<Rightarrow> (string \<times> string \<times> nat) option) \<Rightarrow> (string \<Rightarrow> action option) \<Rightarrow>
   plan_file \<Rightarrow> (plan \<times> nat) option"
where
  "parse_plan occurs action_of file =
     (case file of
        No_plan_file \<Rightarrow> None
      | Not_json \<Rightarrow> None
      | Plan_document data \<Rightarrow>
          (case read_plan occurs action_of data of
             Inl e \<Rightarrow> None
           | Inr r \<Rightarrow> Some r))"

section \<open>The main program\<close>

text \<open>
  The run: exit status 1 when a parser returns \<open>None\<close>; otherwise the pass that
  measures the cell width and the pass that draws, each a replay of the plan from the
  initial state, and the state at the end.
\<close>

datatype run_result =
  Exit_1
| Crashed exn
| Completed state

definition main ::
  "(string \<Rightarrow> (string \<times> string \<times> nat) option) \<Rightarrow> (string \<Rightarrow> action option) \<Rightarrow>
   init_line list option \<Rightarrow> plan_file \<Rightarrow> run_result"
where
  "main occurs action_of init_file plan_file =
     (case parse_init init_file of
        None \<Rightarrow> Exit_1
      | Some (initial_state, grid_dims) \<Rightarrow>
          (case parse_plan occurs action_of plan_file of
             None \<Rightarrow> Exit_1
           | Some (pl, max_time) \<Rightarrow>
               (case replay pl 1 max_time initial_state of
                  Inl e \<Rightarrow> Crashed e
                | Inr temp_state \<Rightarrow>
                    (case replay pl 1 max_time initial_state of
                       Inl e \<Rightarrow> Crashed e
                     | Inr current_state \<Rightarrow> Completed current_state))))"

text \<open>
  A plan document that lacks the expected top-level fields, as specified: an object with
  no \<open>'Call'\<close> entry, or with no \<open>'Witnesses'\<close> entry in its first call.
\<close>

fun missing_top_level :: "json \<Rightarrow> bool" where
  "missing_top_level (JObj kvs) =
     (case map_of kvs ''Call'' of
        None \<Rightarrow> True
      | Some (JArr (JObj call # calls)) \<Rightarrow> map_of call ''Witnesses'' = None
      | Some _ \<Rightarrow> False)"
| "missing_top_level _ = False"

section \<open>The state as mutable objects\<close>

text \<open>
  The dictionaries that \<open>update_state\<close> writes into are objects with an identity: the
  dictionary of each robot, of each shelf and of each order, and the quantities and
  requirements dictionaries inside them. The store holds the objects by kind, at
  addresses; \<open>next_addr\<close> is the first address not yet given to an object. The
  containers that \<open>update_state\<close> only reads (the state dictionary itself and its
  robots, shelves and orders dictionaries) are values that hold the addresses of their
  entries.
\<close>

type_synonym addr = nat

record shelf_cell =
  cell_pos :: "coord option"
  cell_quantities :: addr

record order_cell =
  cell_station_id :: string
  cell_requirements :: addr

record heap =
  robot_cells :: "addr \<Rightarrow> robot_data"
  shelf_cells :: "addr \<Rightarrow> shelf_cell"
  order_cells :: "addr \<Rightarrow> order_cell"
  dict_cells :: "addr \<Rightarrow> (string \<rightharpoonup> int)"
  next_addr :: addr

record state_ref =
  ref_nodes :: "coord set"
  ref_highways :: "coord set"
  ref_picking_stations :: "string \<rightharpoonup> coord"
  ref_robots :: "(string \<times> addr) list"
  ref_shelves :: "(string \<times> addr) list"
  ref_products :: "string list"
  ref_orders :: "(string \<times> addr) list"

text \<open>The state that a reference denotes in a store: what a reader of its fields sees.\<close>

definition read_shelf :: "heap \<Rightarrow> addr \<Rightarrow> shelf_data" where
  "read_shelf h a =
     \<lparr>shelf_pos = cell_pos (shelf_cells h a),
      quantities = dict_cells h (cell_quantities (shelf_cells h a))\<rparr>"

definition read_order :: "heap \<Rightarrow> addr \<Rightarrow> order_data" where
  "read_order h a =
     \<lparr>station_id = cell_station_id (order_cells h a),
      requirements = dict_cells h (cell_requirements (order_cells h a))\<rparr>"

definition read_state :: "heap \<Rightarrow> state_ref \<Rightarrow> state" where
  "read_state h ref =
     \<lparr>nodes = ref_nodes ref,
      highways = ref_highways ref,
      picking_stations = ref_picking_stations ref,
      robots = (\<lambda>robot_id. map_option (robot_cells h) (map_of (ref_robots ref) robot_id)),
      shelves = map (\<lambda>(shelf_id, a). (shelf_id, read_shelf h a)) (ref_shelves ref),
      products = ref_products ref,
      orders = (\<lambda>order_id. map_option (read_order h) (map_of (ref_orders ref) order_id))\<rparr>"

text \<open>
  \<open>copy.deepcopy\<close> of a state none of whose objects is shared between two entries: a
  new object for each robot, each shelf with its quantities, each order with its
  requirements, with the contents of the original.
\<close>

fun copy_robots :: "(string \<times> addr) list \<Rightarrow> heap \<Rightarrow> (string \<times> addr) list \<times> heap" where
  "copy_robots [] h = ([], h)"
| "copy_robots ((robot_id, a) # rest) h =
     (case copy_robots rest
             (h\<lparr>robot_cells := (robot_cells h)(next_addr h := robot_cells h a),
                next_addr := next_addr h + 1\<rparr>) of
        (rest', h') \<Rightarrow> ((robot_id, next_addr h) # rest', h'))"

fun copy_shelves :: "(string \<times> addr) list \<Rightarrow> heap \<Rightarrow> (string \<times> addr) list \<times> heap" where
  "copy_shelves [] h = ([], h)"
| "copy_shelves ((shelf_id, a) # rest) h =
     (case copy_shelves rest
             (h\<lparr>dict_cells := (dict_cells h)
                  (next_addr h := dict_cells h (cell_quantities (shelf_cells h a))),
                shelf_cells := (shelf_cells h)
                  (next_addr h + 1 :=
                     \<lparr>cell_pos = cell_pos (shelf_cells h a), cell_quantities = next_addr h\<rparr>),
                next_addr := next_addr h + 2\<rparr>) of
        (rest', h') \<Rightarrow> ((shelf_id, next_addr h + 1) # rest', h'))"

fun copy_orders :: "(string \<times> addr) list \<Rightarrow> heap \<Rightarrow> (string \<times> addr) list \<times> heap" where
  "copy_orders [] h = ([], h)"
| "copy_orders ((order_id, a) # rest) h =
     (case copy_orders rest
             (h\<lparr>dict_cells := (dict_cells h)
                  (next_addr h := dict_cells h (cell_requirements (order_cells h a))),
                order_cells := (order_cells h)
                  (next_addr h + 1 :=
                     \<lparr>cell_station_id = cell_station_id (order_cells h a),
                      cell_requirements = next_addr h\<rparr>),
                next_addr := next_addr h + 2\<rparr>) of
        (rest', h') \<Rightarrow> ((order_id, next_addr h + 1) # rest', h'))"

definition deepcopy :: "state_ref \<Rightarrow> heap \<Rightarrow> state_ref \<times> heap" where
  "deepcopy ref h =
     (case copy_robots (ref_robots ref) h of
        (robots', h1) \<Rightarrow>
          (case copy_shelves (ref_shelves ref) h1 of
             (shelves', h2) \<Rightarrow>
               (case copy_orders (ref_orders ref) h2 of
                  (orders', h3) \<Rightarrow>
                    (ref\<lparr>ref_robots := robots', ref_shelves := shelves',
                         ref_orders := orders'\<rparr>, h3))))"

section \<open>The state update on mutable objects\<close>

text \<open>
  \<open>update_state\<close> again, each read and each write as the code does it: through
  \<open>current_state\<close> or through \<open>next_state\<close>, on the objects of the store.
\<close>

fun shelf_to_pickup_heap :: "heap \<Rightarrow> (string \<times> addr) list \<Rightarrow> coord \<Rightarrow> string option" where
  "shelf_to_pickup_heap h [] current_pos = None"
| "shelf_to_pickup_heap h ((shelf_id, a) # rest) current_pos =
     (if cell_pos (shelf_cells h a) = Some current_pos then Some shelf_id
      else shelf_to_pickup_heap h rest current_pos)"

fun occupied_heap :: "heap \<Rightarrow> (string \<times> addr) list \<Rightarrow> coord \<Rightarrow> string \<Rightarrow> bool" where
  "occupied_heap h [] current_pos current_carrying = False"
| "occupied_heap h ((shelf_id, a) # rest) current_pos current_carrying =
     (if cell_pos (shelf_cells h a) = Some current_pos \<and> shelf_id \<noteq> current_carrying then True
      else occupied_heap h rest current_pos current_carrying)"

definition write_carries :: "addr \<Rightarrow> string option \<Rightarrow> heap \<Rightarrow> heap" where
  "write_carries a c h = h\<lparr>robot_cells := (robot_cells h)(a := (robot_cells h a)\<lparr>carries := c\<rparr>)\<rparr>"

text \<open>A write to \<open>next_state['shelves'][shelf_id]['pos']\<close>, when the key exists.\<close>

definition write_shelf_pos ::
  "(string \<times> addr) list \<Rightarrow> string \<Rightarrow> coord option \<Rightarrow> heap \<Rightarrow> heap"
where
  "write_shelf_pos shs shelf_id p h =
     (case map_of shs shelf_id of
        None \<Rightarrow> h
      | Some a \<Rightarrow> h\<lparr>shelf_cells := (shelf_cells h)(a := (shelf_cells h a)\<lparr>cell_pos := p\<rparr>)\<rparr>)"

definition pickup_heap ::
  "state_ref \<Rightarrow> state_ref \<Rightarrow> heap \<Rightarrow> robot_data \<Rightarrow> addr \<Rightarrow> heap outcome"
where
  "pickup_heap current_state next_state h robot_curr_state robot_next_state =
     (case truthy (carries robot_curr_state) of
        Some _ \<Rightarrow> Skipped Already_carrying
      | None \<Rightarrow>
          (case truthy (shelf_to_pickup_heap h (ref_shelves current_state)
                          (pos robot_curr_state)) of
             None \<Rightarrow> Skipped No_shelf_found
           | Some shelf_id \<Rightarrow>
               Done (write_shelf_pos (ref_shelves next_state) shelf_id None
                       (write_carries robot_next_state (Some shelf_id) h))))"

definition putdown_heap :: "state_ref \<Rightarrow> heap \<Rightarrow> robot_data \<Rightarrow> addr \<Rightarrow> heap outcome" where
  "putdown_heap next_state h robot_curr_state robot_next_state =
     (case truthy (carries robot_curr_state) of
        None \<Rightarrow> Skipped Putdown_carrying_nothing
      | Some current_carrying \<Rightarrow>
          if pos robot_curr_state \<in> ref_highways next_state then Skipped Putdown_on_highway
          else if occupied_heap h (ref_shelves next_state) (pos robot_curr_state)
                    current_carrying
          then Skipped Shelf_already_there
          else
            Done (write_shelf_pos (ref_shelves next_state) current_carrying
                    (Some (pos robot_curr_state))
                    (write_carries robot_next_state None h)))"

definition deliver_heap ::
  "state_ref \<Rightarrow> heap \<Rightarrow> robot_data \<Rightarrow> string \<Rightarrow> string \<Rightarrow> nat \<Rightarrow> heap outcome"
where
  "deliver_heap next_state h robot_curr_state order_id product_id units =
     (case truthy (carries robot_curr_state) of
        None \<Rightarrow> Skipped Deliver_carrying_nothing
      | Some shelf_id_carried \<Rightarrow>
          (case map_of (ref_shelves next_state) shelf_id_carried of
             None \<Rightarrow> Skipped Unknown_shelf
           | Some sa \<Rightarrow>
               (case map_of (ref_orders next_state) order_id of
                  None \<Rightarrow> Skipped Unknown_order
                | Some oa \<Rightarrow>
                    (case dict_cells h (cell_quantities (shelf_cells h sa)) product_id of
                       None \<Rightarrow> Skipped Unknown_product
                     | Some current_shelf_qty \<Rightarrow>
                         let required_station_id = cell_station_id (order_cells h oa);
                             required_station_pos =
                               (if required_station_id \<noteq> []
                                then ref_picking_stations next_state required_station_id
                                else None)
                         in
                           if Some (pos robot_curr_state) \<noteq> required_station_pos
                           then Skipped Wrong_station
                           else if current_shelf_qty < int units
                           then Skipped Insufficient_quantity
                           else
                             let qa = cell_quantities (shelf_cells h sa);
                                 h1 = h\<lparr>dict_cells := (dict_cells h)
                                        (qa := (dict_cells h qa)
                                           (product_id \<mapsto> current_shelf_qty - int units))\<rparr>;
                                 ra = cell_requirements (order_cells h1 oa)
                             in Done (h1\<lparr>dict_cells := (dict_cells h1)
                                       (ra := decrement_requirement (dict_cells h1 ra)
                                                product_id units)\<rparr>)))))"

definition apply_action_heap ::
  "state_ref \<Rightarrow> state_ref \<Rightarrow> heap \<Rightarrow> action_info \<Rightarrow> heap outcome"
where
  "apply_action_heap current_state next_state h action_info =
     (case action_info of (robot_id, act) \<Rightarrow>
        (case map_of (ref_robots current_state) robot_id of
           None \<Rightarrow> Skipped Unknown_robot
         | Some ac \<Rightarrow>
             (case map_of (ref_robots next_state) robot_id of
                None \<Rightarrow> Raised KeyError
              | Some robot_next_state \<Rightarrow>
                  (case act of
                     Move dx dy \<Rightarrow>
                       Done (h\<lparr>robot_cells := (robot_cells h)
                         (robot_next_state := (robot_cells h robot_next_state)
                            \<lparr>pos := (fst (pos (robot_cells h ac)) + dx,
                                     snd (pos (robot_cells h ac)) + dy)\<rparr>)\<rparr>)
                   | Pickup \<Rightarrow>
                       pickup_heap current_state next_state h (robot_cells h ac)
                         robot_next_state
                   | Putdown \<Rightarrow>
                       putdown_heap next_state h (robot_cells h ac) robot_next_state
                   | Deliver order_id product_id units \<Rightarrow>
                       deliver_heap next_state h (robot_cells h ac) order_id product_id
                         units))))"

fun apply_actions_heap ::
  "state_ref \<Rightarrow> state_ref \<Rightarrow> heap \<Rightarrow> action_info list \<Rightarrow> exn + heap"
where
  "apply_actions_heap current_state next_state h [] = Inr h"
| "apply_actions_heap current_state next_state h (action_info # rest) =
     (case apply_action_heap current_state next_state h action_info of
        Done h' \<Rightarrow> apply_actions_heap current_state next_state h' rest
      | Skipped w \<Rightarrow> apply_actions_heap current_state next_state h rest
      | Raised e \<Rightarrow> Inl e)"

text \<open>The call: the reference to the new state and the store after the call.\<close>

definition update_state_heap ::
  "state_ref \<Rightarrow> action_info list \<Rightarrow> heap \<Rightarrow> exn + (state_ref \<times> heap)"
where
  "update_state_heap current_state actions_at_this_step h =
     (case deepcopy current_state h of
        (next_state, h1) \<Rightarrow>
          (case apply_actions_heap current_state next_state h1 actions_at_this_step of
             Inl e \<Rightarrow> Inl e
           | Inr h' \<Rightarrow> Inr (next_state, h')))"

text \<open>
  A state laid out in a store: the addresses it holds are in use, and no object is shared
  between two entries (as in every state that \<open>parse_init\<close> builds and \<open>deepcopy\<close> copies).
\<close>

definition dict_addrs :: "heap \<Rightarrow> state_ref \<Rightarrow> addr list" where
  "dict_addrs h ref =
     map (\<lambda>kv. cell_quantities (shelf_cells h (snd kv))) (ref_shelves ref) @
     map (\<lambda>kv. cell_requirements (order_cells h (snd kv))) (ref_orders ref)"

definition allocated :: "heap \<Rightarrow> state_ref \<Rightarrow> bool" where
  "allocated h ref =
     (list_all (\<lambda>kv. snd kv < next_addr h) (ref_robots ref) \<and>
      list_all (\<lambda>kv. snd kv < next_addr h) (ref_shelves ref) \<and>
      list_all (\<lambda>kv. snd kv < next_addr h) (ref_orders ref) \<and>
      list_all (\<lambda>a. a < next_addr h) (dict_addrs h ref))"

definition unshared :: "heap \<Rightarrow> state_ref \<Rightarrow> bool" where
  "unshared h ref =
     (distinct (map snd (ref_robots ref)) \<and>
      distinct (map snd (ref_shelves ref)) \<and>
      distinct (map snd (ref_orders ref)) \<and>
      distinct (dict_addrs h ref))"

definition laid_out :: "heap \<Rightarrow> state_ref \<Rightarrow> bool" where
  "laid_out h ref = (allocated h ref \<and> unshared h ref)"

text \<open>
  What the loop over the actions keeps true of the store \<open>h\<close>, from the store \<open>h0\<close> of the
  call on: the objects of \<open>h0\<close> are as they were, and the objects of the copy are new,
  in use and not shared.
\<close>

definition agree_below :: "addr \<Rightarrow> heap \<Rightarrow> heap \<Rightarrow> bool" where
  "agree_below base h0 h =
     (\<forall>a < base.
        robot_cells h a = robot_cells h0 a \<and> shelf_cells h a = shelf_cells h0 a \<and>
        order_cells h a = order_cells h0 a \<and> dict_cells h a = dict_cells h0 a)"

definition above :: "addr \<Rightarrow> heap \<Rightarrow> state_ref \<Rightarrow> bool" where
  "above base h ref =
     (list_all (\<lambda>kv. base \<le> snd kv) (ref_robots ref) \<and>
      list_all (\<lambda>kv. base \<le> snd kv) (ref_shelves ref) \<and>
      list_all (\<lambda>kv. base \<le> snd kv) (ref_orders ref) \<and>
      list_all (\<lambda>a. base \<le> a) (dict_addrs h ref))"

definition copy_inv :: "heap \<Rightarrow> state_ref \<Rightarrow> state_ref \<Rightarrow> heap \<Rightarrow> bool" where
  "copy_inv h0 cur nxt h =
     (allocated h0 cur \<and> agree_below (next_addr h0) h0 h \<and> next_addr h0 \<le> next_addr h \<and>
      above (next_addr h0) h nxt \<and> allocated h nxt \<and> unshared h nxt)"

text \<open>The state of the scenario laid out in a store.\<close>

definition scenario_heap :: heap where
  "scenario_heap =
     \<lparr>robot_cells = (\<lambda>a. \<lparr>pos = (0, 0), carries = None\<rparr>)
        (0 := \<lparr>pos = (1, 1), carries = None\<rparr>),
      shelf_cells = (\<lambda>a. \<lparr>cell_pos = None, cell_quantities = 0\<rparr>)
        (2 := \<lparr>cell_pos = Some (1, 1), cell_quantities = 1\<rparr>),
      order_cells = (\<lambda>a. \<lparr>cell_station_id = [], cell_requirements = 0\<rparr>)
        (4 := \<lparr>cell_station_id = ''st1'', cell_requirements = 3\<rparr>),
      dict_cells = (\<lambda>a. Map.empty)(1 := [''p1'' \<mapsto> 5], 3 := [''p1'' \<mapsto> 3]),
      next_addr = 5\<rparr>"

definition scenario_ref :: state_ref where
  "scenario_ref =
     \<lparr>ref_nodes = {(1, 1), (2, 2)},
      ref_highways = {},
      ref_picking_stations = [''st1'' \<mapsto> (2, 2)],
      ref_robots = [(''r1'', 0)],
      ref_shelves = [(''s1'', 2)],
      ref_products = [''p1''],
      ref_orders = [(''o1'', 4)]\<rparr>"

text \<open>
  One iteration on the store follows one iteration on the states read from it: the same
  warning or exception, or a write after which the copy reads as the new \<open>next_state\<close>.
\<close>

definition refines ::
  "heap \<Rightarrow> state_ref \<Rightarrow> state_ref \<Rightarrow> heap outcome \<Rightarrow> state outcome \<Rightarrow> bool"
where
  "refines h0 cur nxt ho so =
     (case so of
        Done s' \<Rightarrow>
          (case ho of
             Done h' \<Rightarrow> read_state h' nxt = s' \<and> copy_inv h0 cur nxt h'
           | Skipped w \<Rightarrow> False
           | Raised e \<Rightarrow> False)
      | Skipped w \<Rightarrow> ho = Skipped w
      | Raised e \<Rightarrow> ho = Raised e)"

section \<open>Basic facts about the loop over the actions\<close>

lemma apply_actions_append:
  "apply_actions cur nxt (xs @ ys) =
     (case apply_actions cur nxt xs of Inl e \<Rightarrow> Inl e | Inr n \<Rightarrow> apply_actions cur n ys)"
  by (induction xs arbitrary: nxt) (auto split: outcome.splits)

lemma pickup_Done_robots:
  "pickup cur nxt r rc rn = Done n' \<Longrightarrow> \<exists>rb. robots n' = (robots nxt)(r \<mapsto> rb)"
  by (auto simp: pickup_def split: option.splits)

lemma putdown_Done_robots:
  "putdown nxt r rc rn = Done n' \<Longrightarrow> \<exists>rb. robots n' = (robots nxt)(r \<mapsto> rb)"
  by (auto simp: putdown_def split: option.splits if_splits)

lemma deliver_Done_robots:
  "deliver nxt rc order_id p u = Done n' \<Longrightarrow> robots n' = robots nxt"
  by (auto simp: deliver_def Let_def split: option.splits if_splits)

lemma apply_action_Done_dom:
  "apply_action cur nxt a = Done n' \<Longrightarrow> dom (robots n') = dom (robots nxt)"
  by (cases a)
     (auto simp: apply_action_def split: option.splits action.splits if_splits
       dest!: pickup_Done_robots putdown_Done_robots deliver_Done_robots)

lemma pickup_not_Raised: "pickup cur nxt r rc rn \<noteq> Raised e"
  by (auto simp: pickup_def split: option.splits)

lemma putdown_not_Raised: "putdown nxt r rc rn \<noteq> Raised e"
  by (auto simp: putdown_def split: option.splits)

lemma deliver_not_Raised: "deliver nxt rc order_id p u \<noteq> Raised e"
  by (auto simp: deliver_def Let_def split: option.splits)

text \<open>
  The subscript \<open>next_state['robots'][robot_id]\<close> cannot raise while the copy has the
  robots of the original, and no action adds or removes a robot.
\<close>

lemma apply_action_not_Raised:
  "dom (robots nxt) = dom (robots cur) \<Longrightarrow> apply_action cur nxt a \<noteq> Raised e"
  by (cases a)
     (auto simp: apply_action_def pickup_not_Raised putdown_not_Raised deliver_not_Raised
       split: option.splits action.splits)

lemma apply_actions_total:
  "dom (robots nxt) = dom (robots cur) \<Longrightarrow> \<exists>s'. apply_actions cur nxt acts = Inr s'"
proof (induction acts arbitrary: nxt)
  case Nil
  show ?case by simp
next
  case (Cons a acts)
  show ?case
  proof (cases "apply_action cur nxt a")
    case (Done n')
    then have "dom (robots n') = dom (robots cur)"
      using Cons.prems apply_action_Done_dom by blast
    then show ?thesis using Done Cons.IH by simp
  next
    case (Skipped w)
    then show ?thesis using Cons by simp
  next
    case (Raised e)
    then show ?thesis using Cons.prems apply_action_not_Raised by blast
  qed
qed

lemma apply_actions_dom:
  "apply_actions cur nxt acts = Inr s' \<Longrightarrow> dom (robots s') = dom (robots nxt)"
proof (induction acts arbitrary: nxt)
  case Nil
  then show ?case by simp
next
  case (Cons a acts)
  show ?case
  proof (cases "apply_action cur nxt a")
    case (Done n')
    then have "dom (robots n') = dom (robots nxt)" by (rule apply_action_Done_dom)
    moreover have "dom (robots s') = dom (robots n')"
      using Cons.prems Done by (intro Cons.IH) simp
    ultimately show ?thesis by simp
  next
    case (Skipped w)
    then show ?thesis using Cons by simp
  next
    case (Raised e)
    then show ?thesis using Cons.prems by simp
  qed
qed

text \<open>\<open>update_state\<close> returns a state for every state and every list of actions.\<close>

lemma update_state_total: "\<exists>s'. update_state s acts = Inr s'"
  by (simp add: update_state_def apply_actions_total)

section \<open>Evaluation of the scenario\<close>

lemma replay_numeral:
  "replay pl t (numeral k) s =
     (case update_state s (plan_get pl t) of
        Inl e \<Rightarrow> Inl e
      | Inr s' \<Rightarrow> replay pl (t + 1) (pred_numeral k) s')"
  by (simp add: numeral_eq_Suc)

lemmas engine_defs =
  update_state_def apply_action_def pickup_def putdown_def deliver_def
  decrement_requirement_def truthy_def update_shelf_def Let_def

lemma scenario_replay: "replay scenario_plan 1 3 scenario_state = Inr scenario_end"
  by (simp add: numeral_2_eq_2 [symmetric] replay_numeral scenario_plan_def plan_get_def
      scenario_state_def scenario_end_def engine_defs)

text \<open>
  C2 (as stated). The replay of the scenario does not end in the expected state: the robot
  still carries \<open>s1\<close>, and \<open>s1\<close> has no position.
\<close>

theorem scenario_expected_counterexample:
  "\<not> (case replay scenario_plan 1 3 scenario_state of
         Inl e \<Rightarrow> False
       | Inr s \<Rightarrow> scenario_expected s)"
  using scenario_replay by (simp add: scenario_expected_def scenario_end_def)

text \<open>
  C2 (amended). Pickup by \<open>r1\<close> at timestep 1, Move(+1,+1) at timestep 2 and
  Deliver(o1,p1,3) at timestep 3 end with \<open>r1\<close> at (2,2) still carrying \<open>s1\<close>, \<open>s1\<close> without
  a position and with 2 units of \<open>p1\<close>, and the requirement of \<open>o1\<close> for \<open>p1\<close> at 0.
\<close>

theorem scenario_end_state:
  "replay scenario_plan 1 3 scenario_state = Inr scenario_end \<and>
   robots scenario_end ''r1'' = Some \<lparr>pos = (2, 2), carries = Some ''s1''\<rparr> \<and>
   map_option shelf_pos (map_of (shelves scenario_end) ''s1'') = Some None \<and>
   map_option (\<lambda>sd. quantities sd ''p1'') (map_of (shelves scenario_end) ''s1'') = Some (Some 2) \<and>
   map_option (\<lambda>od. requirements od ''p1'') (orders scenario_end ''o1'') = Some (Some 0)"
  using scenario_replay by (simp add: scenario_end_def)

section \<open>A single Move\<close>

text \<open>
  C10. A single Move(dx,dy) by a known robot changes only that robot's position: the
  result is the input state with the robot's \<open>pos\<close> field replaced, so the carried shelf,
  the other robots, the shelves, the orders, the nodes, the highways and the picking
  stations are the input's.
\<close>

theorem move_frame:
  assumes "robots s r = Some rb"
  shows "update_state s [(r, Move dx dy)] =
           Inr (s\<lparr>robots := (robots s)(r \<mapsto> rb\<lparr>pos := (fst (pos rb) + dx, snd (pos rb) + dy)\<rparr>)\<rparr>)"
  using assms by (simp add: update_state_def apply_action_def)

theorem move_frame_witness:
  "robots scenario_state ''r1'' = Some \<lparr>pos = (1, 1), carries = None\<rparr> \<and>
   update_state scenario_state [(''r1'', Move 1 1)] =
     Inr (scenario_state\<lparr>robots := [''r1'' \<mapsto> \<lparr>pos = (2, 2), carries = None\<rparr>]\<rparr>)"
  using move_frame [of scenario_state "''r1''" "\<lparr>pos = (1, 1), carries = None\<rparr>" 1 1]
  by (simp add: scenario_state_def)

section \<open>Moves read the position at the start of the timestep\<close>

lemma apply_action_keeps_pos:
  assumes "apply_action cur nxt a = Done n'" and "\<not> moves r a"
  shows "map_option pos (robots n' r) = map_option pos (robots nxt r)"
proof (cases a)
  case (Pair r' act)
  show ?thesis
  proof (cases act)
    case (Move dx dy)
    then show ?thesis using assms Pair
      by (auto simp: apply_action_def split: option.splits)
  next
    case Pickup
    then show ?thesis using assms Pair
      by (auto simp: apply_action_def pickup_def split: option.splits)
  next
    case Putdown
    then show ?thesis using assms Pair
      by (auto simp: apply_action_def putdown_def split: option.splits if_splits)
  next
    case (Deliver order_id p u)
    then show ?thesis using assms Pair
      by (auto simp: apply_action_def split: option.splits dest: deliver_Done_robots)
  qed
qed

lemma apply_actions_keep_pos:
  "\<not> list_ex (moves r) acts \<Longrightarrow> apply_actions cur nxt acts = Inr s' \<Longrightarrow>
   map_option pos (robots s' r) = map_option pos (robots nxt r)"
proof (induction acts arbitrary: nxt)
  case Nil
  then show ?case by simp
next
  case (Cons a acts)
  show ?case
  proof (cases "apply_action cur nxt a")
    case (Done n')
    have "map_option pos (robots s' r) = map_option pos (robots n' r)"
      using Cons.prems Done by (intro Cons.IH) simp_all
    moreover have "map_option pos (robots n' r) = map_option pos (robots nxt r)"
      using apply_action_keeps_pos [OF Done, of r] Cons.prems(1) by simp
    ultimately show ?thesis by simp
  next
    case (Skipped w)
    then show ?thesis using Cons by simp
  next
    case (Raised e)
    then show ?thesis using Cons.prems by simp
  qed
qed

text \<open>
  C9. A Move(dx,dy) by a known robot always takes effect (no check can reject it) and
  writes the robot's position at the start of the timestep plus (dx,dy), whatever the
  earlier actions of the same timestep wrote, other Moves of the same robot included:
  when no later action of the timestep is a Move by this robot, this is the robot's
  position in the result.
\<close>

theorem move_from_start_position:
  assumes known: "robots s r = Some rb"
    and last_move: "\<not> list_ex (moves r) post"
  shows "\<exists>s' rb'. update_state s (pre @ (r, Move dx dy) # post) = Inr s' \<and>
           robots s' r = Some rb' \<and>
           pos rb' = (fst (pos rb) + dx, snd (pos rb) + dy)"
proof -
  obtain n where n: "apply_actions s s pre = Inr n"
    using apply_actions_total [of s s pre] by auto
  have dom_n: "dom (robots n) = dom (robots s)"
    using n by (rule apply_actions_dom)
  then obtain rn where rn: "robots n r = Some rn"
    using known by blast
  define m where
    "m = n\<lparr>robots := (robots n)(r \<mapsto> rn\<lparr>pos := (fst (pos rb) + dx, snd (pos rb) + dy)\<rparr>)\<rparr>"
  have step: "apply_action s n (r, Move dx dy) = Done m"
    using known rn by (simp add: apply_action_def m_def)
  have "dom (robots m) = dom (robots s)"
    using dom_n rn by (auto simp: m_def)
  then obtain s' where s': "apply_actions s m post = Inr s'"
    using apply_actions_total by blast
  have "map_option pos (robots s' r) = map_option pos (robots m r)"
    using last_move s' by (rule apply_actions_keep_pos)
  then obtain rb' where "robots s' r = Some rb'"
    and "pos rb' = (fst (pos rb) + dx, snd (pos rb) + dy)"
    by (auto simp: m_def)
  moreover have "update_state s (pre @ (r, Move dx dy) # post) = Inr s'"
    using n step s' by (simp add: update_state_def apply_actions_append)
  ultimately show ?thesis by blast
qed

theorem move_from_start_position_witness:
  "robots scenario_state ''r1'' = Some \<lparr>pos = (1, 1), carries = None\<rparr> \<and>
   \<not> list_ex (moves ''r1'') [(''r1'', Pickup)] \<and>
   (\<exists>s' rb'. update_state scenario_state
        ([(''r1'', Move 5 5)] @ (''r1'', Move 1 (- 1)) # [(''r1'', Pickup)]) = Inr s' \<and>
      robots s' ''r1'' = Some rb' \<and> pos rb' = (2, 0))"
  using move_from_start_position [of scenario_state "''r1''" "\<lparr>pos = (1, 1), carries = None\<rparr>"
      "[(''r1'', Pickup)]" "[(''r1'', Move 5 5)]" 1 "- 1"]
  by (simp add: scenario_state_def)

section \<open>Order requirements never grow\<close>

lemma decrement_requirement_le:
  assumes "reqs p = Some v" and "0 \<le> v"
  shows "\<exists>v'. decrement_requirement reqs q u p = Some v' \<and> 0 \<le> v' \<and> v' \<le> v"
  using assms by (auto simp: decrement_requirement_def split: option.splits)

lemma deliver_Done_orders:
  assumes "deliver nxt rc order_id q u = Done n'"
  shows "\<exists>od. orders nxt order_id = Some od \<and>
           orders n' = (orders nxt)
             (order_id \<mapsto> od\<lparr>requirements := decrement_requirement (requirements od) q u\<rparr>)"
  using assms by (auto simp: deliver_def Let_def split: option.splits if_splits)

lemma pickup_Done_orders: "pickup cur nxt r rc rn = Done n' \<Longrightarrow> orders n' = orders nxt"
  by (auto simp: pickup_def split: option.splits)

lemma putdown_Done_orders: "putdown nxt r rc rn = Done n' \<Longrightarrow> orders n' = orders nxt"
  by (auto simp: putdown_def split: option.splits if_splits)

lemma apply_action_requirement:
  assumes step: "apply_action cur nxt a = Done n'"
    and od: "orders nxt ord = Some od" and v: "requirements od p = Some v" and nonneg: "0 \<le> v"
  shows "\<exists>od' v'. orders n' ord = Some od' \<and> requirements od' p = Some v' \<and>
           0 \<le> v' \<and> v' \<le> v"
proof (cases a)
  case (Pair r act)
  show ?thesis
  proof (cases act)
    case (Move dx dy)
    then have "orders n' = orders nxt"
      using step Pair by (auto simp: apply_action_def split: option.splits)
    then show ?thesis using od v nonneg by simp
  next
    case Pickup
    then have "orders n' = orders nxt"
      using step Pair
      by (auto simp: apply_action_def split: option.splits dest: pickup_Done_orders)
    then show ?thesis using od v nonneg by simp
  next
    case Putdown
    then have "orders n' = orders nxt"
      using step Pair
      by (auto simp: apply_action_def split: option.splits dest: putdown_Done_orders)
    then show ?thesis using od v nonneg by simp
  next
    case (Deliver order_id q u)
    then obtain rc where "deliver nxt rc order_id q u = Done n'"
      using step Pair by (auto simp: apply_action_def split: option.splits)
    then obtain od0 where od0: "orders nxt order_id = Some od0"
      and n': "orders n' = (orders nxt)
         (order_id \<mapsto> od0\<lparr>requirements := decrement_requirement (requirements od0) q u\<rparr>)"
      using deliver_Done_orders by blast
    show ?thesis
    proof (cases "order_id = ord")
      case True
      then have "od0 = od" using od od0 by simp
      then show ?thesis
        using n' True v nonneg decrement_requirement_le [of "requirements od" p v q u] by auto
    next
      case False
      then show ?thesis using n' od v nonneg by auto
    qed
  qed
qed

lemma apply_actions_requirement:
  "apply_actions cur nxt acts = Inr s' \<Longrightarrow> orders nxt ord = Some od \<Longrightarrow>
   requirements od p = Some v \<Longrightarrow> 0 \<le> v \<Longrightarrow>
   \<exists>od' v'. orders s' ord = Some od' \<and> requirements od' p = Some v' \<and> 0 \<le> v' \<and> v' \<le> v"
proof (induction acts arbitrary: nxt od v)
  case Nil
  then show ?case by auto
next
  case (Cons a acts)
  show ?case
  proof (cases "apply_action cur nxt a")
    case (Done n')
    obtain od1 v1 where od1: "orders n' ord = Some od1" and v1: "requirements od1 p = Some v1"
      and b1: "0 \<le> v1" "v1 \<le> v"
      using apply_action_requirement [OF Done Cons.prems(2,3,4)] by blast
    have "apply_actions cur n' acts = Inr s'"
      using Cons.prems(1) Done by simp
    from Cons.IH [OF this od1 v1 b1(1)] b1(2) show ?thesis
      by force
  next
    case (Skipped w)
    then show ?thesis using Cons by simp
  next
    case (Raised e)
    then show ?thesis using Cons.prems by simp
  qed
qed

text \<open>
  C4. For every state, every order of the state and every product the order lists with
  a count that is not negative (every count of a parsed state is a natural number), the
  count after one call of \<open>update_state\<close>, for any list of actions, is at most the
  count before and is not negative; the call returns a state and keeps the order.
\<close>

theorem requirements_non_increasing:
  assumes "orders s ord = Some od" and "requirements od p = Some v" and "0 \<le> v"
  shows "\<exists>s' od' v'. update_state s acts = Inr s' \<and> orders s' ord = Some od' \<and>
           requirements od' p = Some v' \<and> 0 \<le> v' \<and> v' \<le> v"
proof -
  obtain s' where s': "apply_actions s s acts = Inr s'"
    using apply_actions_total [of s s acts] by auto
  from apply_actions_requirement [OF this assms] show ?thesis
    using s' by (auto simp: update_state_def)
qed

theorem requirements_non_increasing_witness:
  "orders scenario_end ''o1'' = Some \<lparr>station_id = ''st1'', requirements = [''p1'' \<mapsto> 0]\<rparr> \<and>
   (\<exists>s' od' v'.
      update_state scenario_end
        [(''r1'', Deliver ''o1'' ''p1'' 1), (''r1'', Deliver ''o1'' ''p1'' 1)] = Inr s' \<and>
      orders s' ''o1'' = Some od' \<and> requirements od' ''p1'' = Some v' \<and> 0 \<le> v' \<and> v' \<le> 0)"
  using requirements_non_increasing [of scenario_end "''o1''"
      "\<lparr>station_id = ''st1'', requirements = [''p1'' \<mapsto> 0]\<rparr>" "''p1''" 0
      "[(''r1'', Deliver ''o1'' ''p1'' 1), (''r1'', Deliver ''o1'' ''p1'' 1)]"]
  by (simp add: scenario_end_def)

section \<open>Deliver: rejection and effect\<close>

text \<open>
  C1. For a Deliver(order, product, units) by a known robot, in a state whose
  identities are not empty strings (none that the parsers read is): when one of the
  listed rejection conditions holds, the action is skipped with a warning and the
  state is returned unchanged; otherwise the action is carried out, and the result is
  the input state with the shelf's quantity of the product decremented by the units
  and the order's requirement for it decremented by the units, floored at zero.
\<close>

theorem deliver_rejected_or_applied:
  assumes known: "robots s r = Some rb"
    and shelf_id_ok: "carries rb \<noteq> Some []"
    and station_id_ok: "\<forall>od. orders s order_id = Some od \<longrightarrow> station_id od \<noteq> []"
  shows "(deliver_rejected s rb order_id p u \<longrightarrow>
            (\<exists>w. apply_action s s (r, Deliver order_id p u) = Skipped w) \<and>
            update_state s [(r, Deliver order_id p u)] = Inr s) \<and>
         (\<not> deliver_rejected s rb order_id p u \<longrightarrow>
            (\<exists>shelf_id sd od q.
               carries rb = Some shelf_id \<and> map_of (shelves s) shelf_id = Some sd \<and>
               orders s order_id = Some od \<and> quantities sd p = Some q \<and>
               apply_action s s (r, Deliver order_id p u) =
                 Done (delivered s shelf_id sd q order_id od p u) \<and>
               update_state s [(r, Deliver order_id p u)] =
                 Inr (delivered s shelf_id sd q order_id od p u)))"
proof (intro conjI impI)
  assume rej: "deliver_rejected s rb order_id p u"
  then have "\<exists>w. deliver s rb order_id p u = Skipped w"
    using shelf_id_ok station_id_ok
    by (auto simp: deliver_rejected_def deliver_def truthy_def Let_def split: option.splits)
  then obtain w where w: "apply_action s s (r, Deliver order_id p u) = Skipped w"
    using known by (auto simp: apply_action_def)
  then show "\<exists>w. apply_action s s (r, Deliver order_id p u) = Skipped w" by blast
  show "update_state s [(r, Deliver order_id p u)] = Inr s"
    using w by (simp add: update_state_def)
next
  assume acc: "\<not> deliver_rejected s rb order_id p u"
  then obtain shelf_id sd od q where c: "carries rb = Some shelf_id"
    and sd: "map_of (shelves s) shelf_id = Some sd"
    and od: "orders s order_id = Some od"
    and q: "quantities sd p = Some q"
    and at_station: "picking_stations s (station_id od) = Some (pos rb)"
    and enough: "\<not> q < int u"
    by (auto simp: deliver_rejected_def split: option.splits)
  have "shelf_id \<noteq> []" "station_id od \<noteq> []"
    using c shelf_id_ok od station_id_ok by auto
  then have "deliver s rb order_id p u = Done (delivered s shelf_id sd q order_id od p u)"
    using c sd od q at_station enough
    by (simp add: deliver_def truthy_def Let_def delivered_def decrement_requirement_def
        max_def split: option.splits)
  then have step: "apply_action s s (r, Deliver order_id p u) =
      Done (delivered s shelf_id sd q order_id od p u)"
    using known by (simp add: apply_action_def)
  then have "update_state s [(r, Deliver order_id p u)] =
      Inr (delivered s shelf_id sd q order_id od p u)"
    by (simp add: update_state_def)
  then show "\<exists>shelf_id sd od q.
      carries rb = Some shelf_id \<and> map_of (shelves s) shelf_id = Some sd \<and>
      orders s order_id = Some od \<and> quantities sd p = Some q \<and>
      apply_action s s (r, Deliver order_id p u) =
        Done (delivered s shelf_id sd q order_id od p u) \<and>
      update_state s [(r, Deliver order_id p u)] =
        Inr (delivered s shelf_id sd q order_id od p u)"
    using c sd od q step by blast
qed

theorem deliver_rejected_or_applied_witness:
  "robots scenario_end ''r1'' = Some \<lparr>pos = (2, 2), carries = Some ''s1''\<rparr> \<and>
   deliver_rejected scenario_end \<lparr>pos = (2, 2), carries = Some ''s1''\<rparr> ''o1'' ''p1'' 3 \<and>
   update_state scenario_end [(''r1'', Deliver ''o1'' ''p1'' 3)] = Inr scenario_end \<and>
   \<not> deliver_rejected scenario_end \<lparr>pos = (2, 2), carries = Some ''s1''\<rparr> ''o1'' ''p1'' 2 \<and>
   update_state scenario_end [(''r1'', Deliver ''o1'' ''p1'' 2)] =
     Inr (scenario_end\<lparr>shelves :=
       [(''s1'', \<lparr>shelf_pos = None, quantities = [''p1'' \<mapsto> 0]\<rparr>)]\<rparr>)"
  using
    deliver_rejected_or_applied [of scenario_end "''r1''"
      "\<lparr>pos = (2, 2), carries = Some ''s1''\<rparr>" "''o1''" "''p1''" 3]
    deliver_rejected_or_applied [of scenario_end "''r1''"
      "\<lparr>pos = (2, 2), carries = Some ''s1''\<rparr>" "''o1''" "''p1''" 2]
  by (simp add: scenario_end_def deliver_rejected_def delivered_def)

section \<open>Pickup followed by Putdown\<close>

lemma shelf_to_pickup_unique:
  assumes "map_of shs sh = Some sd" and "shelf_pos sd = Some p"
    and "\<forall>(k, sd') \<in> set shs. shelf_pos sd' = Some p \<longrightarrow> k = sh"
  shows "shelf_to_pickup shs p = Some sh"
  using assms
proof (induction shs)
  case Nil
  then show ?case by simp
next
  case (Cons x shs)
  obtain k sd' where x: "x = (k, sd')" by (cases x)
  show ?case
  proof (cases "shelf_pos sd' = Some p")
    case True
    then show ?thesis using Cons.prems(3) x by simp
  next
    case False
    then have "k \<noteq> sh \<or> sd' \<noteq> sd" using Cons.prems(2) by auto
    then have "map_of shs sh = Some sd" using Cons.prems(1) x by (auto split: if_splits)
    then have "shelf_to_pickup shs p = Some sh"
      using Cons.IH Cons.prems(2,3) by simp
    then show ?thesis using False x by simp
  qed
qed

lemma not_occupied_by_other:
  assumes "\<forall>(k, sd') \<in> set shs. shelf_pos sd' = Some p \<longrightarrow> k = sh"
  shows "\<not> occupied shs p sh"
  using assms by (induction shs) auto

lemma not_occupied_after_pickup:
  assumes "\<forall>(k, sd') \<in> set shs. shelf_pos sd' = Some p \<longrightarrow> k = sh"
  shows "\<not> occupied (AList.update sh v shs) p sh"
  using assms by (induction shs) (auto simp: not_occupied_by_other)

text \<open>
  C6 (as stated). With the only shelf at the robot's position parked on a highway cell,
  the Pickup succeeds and the Putdown of the next timestep is rejected: the robot still
  carries the shelf, and the shelf has no position.
\<close>

theorem pickup_then_putdown_highway_counterexample:
  "robots highway_state ''r1'' = Some \<lparr>pos = (1, 1), carries = None\<rparr> \<and>
   shelves highway_state =
     [(''s1'', \<lparr>shelf_pos = Some (1, 1), quantities = [''p1'' \<mapsto> 5]\<rparr>)] \<and>
   update_state highway_state [(''r1'', Pickup)] = Inr highway_carried \<and>
   update_state highway_carried [(''r1'', Putdown)] = Inr highway_carried \<and>
   robots highway_carried ''r1'' = Some \<lparr>pos = (1, 1), carries = Some ''s1''\<rparr> \<and>
   map_option shelf_pos (map_of (shelves highway_carried) ''s1'') = Some None"
  by (simp add: highway_state_def highway_carried_def scenario_state_def engine_defs)

text \<open>
  C6 (amended). When robot \<open>r\<close> carries nothing, exactly one shelf \<open>sh\<close> (with a
  non-empty identity) is at \<open>r\<close>'s position \<open>p\<close>, and \<open>p\<close> is not a highway cell, a Pickup by
  \<open>r\<close> in one timestep makes \<open>r\<close> carry \<open>sh\<close> and removes the position of \<open>sh\<close>, and a
  Putdown by \<open>r\<close> in the next timestep gives back the state before the Pickup: \<open>sh\<close> is
  at \<open>p\<close> again and \<open>r\<close> carries nothing.
\<close>

theorem pickup_then_putdown_restores:
  assumes known: "robots s r = Some rb"
    and empty_handed: "carries rb = None"
    and shelf_here: "map_of (shelves s) sh = Some sd" "shelf_pos sd = Some (pos rb)"
    and only_shelf: "\<forall>(k, sd') \<in> set (shelves s). shelf_pos sd' = Some (pos rb) \<longrightarrow> k = sh"
    and shelf_id_ok: "sh \<noteq> []"
    and no_highway: "pos rb \<notin> highways s"
  shows "\<exists>s1. update_state s [(r, Pickup)] = Inr s1 \<and>
           robots s1 r = Some (rb\<lparr>carries := Some sh\<rparr>) \<and>
           map_option shelf_pos (map_of (shelves s1) sh) = Some None \<and>
           update_state s1 [(r, Putdown)] = Inr s"
proof -
  define s1 where
    "s1 = s\<lparr>robots := (robots s)(r \<mapsto> rb\<lparr>carries := Some sh\<rparr>),
            shelves := AList.update sh (sd\<lparr>shelf_pos := None\<rparr>) (shelves s)\<rparr>"
  have found: "shelf_to_pickup (shelves s) (pos rb) = Some sh"
    using shelf_here only_shelf by (rule shelf_to_pickup_unique)
  have up: "update_state s [(r, Pickup)] = Inr s1"
    using known empty_handed found shelf_id_ok shelf_here(1)
    by (simp add: update_state_def apply_action_def pickup_def truthy_def update_shelf_def
        s1_def)
  have free: "\<not> occupied (shelves s1) (pos rb) sh"
    using only_shelf by (simp add: s1_def not_occupied_after_pickup)
  have rb: "rb\<lparr>carries := None\<rparr> = rb"
    using empty_handed by simp
  have sd: "sd\<lparr>shelf_pos := Some (pos rb)\<rparr> = sd"
    using shelf_here(2) by simp
  have shs: "AList.update sh sd (shelves s) = shelves s"
    using shelf_here(1) by (rule update_triv)
  have robs: "(robots s)(r \<mapsto> rb) = robots s"
    using known by (rule map_upd_triv)
  have down: "update_state s1 [(r, Putdown)] = Inr s"
    using shelf_id_ok no_highway free
    by (simp add: update_state_def apply_action_def putdown_def truthy_def update_shelf_def
        s1_def update_conv' rb sd shs robs)
  have "robots s1 r = Some (rb\<lparr>carries := Some sh\<rparr>)"
    and "map_option shelf_pos (map_of (shelves s1) sh) = Some None"
    by (simp_all add: s1_def update_conv')
  then show ?thesis using up down by blast
qed

theorem pickup_then_putdown_restores_witness:
  "robots scenario_state ''r1'' = Some \<lparr>pos = (1, 1), carries = None\<rparr> \<and>
   (1, 1) \<notin> highways scenario_state \<and>
   (\<exists>s1. update_state scenario_state [(''r1'', Pickup)] = Inr s1 \<and>
      robots s1 ''r1'' = Some \<lparr>pos = (1, 1), carries = Some ''s1''\<rparr> \<and>
      map_option shelf_pos (map_of (shelves s1) ''s1'') = Some None \<and>
      update_state s1 [(''r1'', Putdown)] = Inr scenario_state)"
  using pickup_then_putdown_restores [of scenario_state "''r1''"
      "\<lparr>pos = (1, 1), carries = None\<rparr>" "''s1''"
      "\<lparr>shelf_pos = Some (1, 1), quantities = [''p1'' \<mapsto> 5]\<rparr>"]
  by (simp add: scenario_state_def)

section \<open>At most one carrier per shelf\<close>

text \<open>
  C5 (as stated). Two robots on the cell of a shelf, none carrying anything, both
  perform a Pickup in one timestep: both lookups read the shelves of the state at the
  start of the timestep, and both robots carry the shelf afterwards.
\<close>

theorem one_carrier_counterexample:
  "map_option carries (robots two_robots_state ''r1'') = Some None \<and>
   map_option carries (robots two_robots_state ''r2'') = Some None \<and>
   update_state two_robots_state [(''r1'', Pickup), (''r2'', Pickup)] = Inr both_carry_state \<and>
   map_option carries (robots both_carry_state ''r1'') = Some (Some ''s1'') \<and>
   map_option carries (robots both_carry_state ''r2'') = Some (Some ''s1'') \<and>
   \<not> exclusive both_carry_state"
proof -
  have "\<not> exclusive both_carry_state"
  proof
    assume "exclusive both_carry_state"
    then have "''r1'' = ''r2''"
      unfolding exclusive_def
      by (rule allE [of _ "''r1''"], elim allE [of _ "''r2''"] allE [of _ "''s1''"])
         (simp add: both_carry_state_def carrier_def)
    then show False by simp
  qed
  moreover have
    "update_state two_robots_state [(''r1'', Pickup), (''r2'', Pickup)] = Inr both_carry_state"
    by (simp add: two_robots_state_def both_carry_state_def scenario_state_def engine_defs
        fun_upd_twist)
  ultimately show ?thesis
    by (simp add: two_robots_state_def both_carry_state_def)
qed
lemma shelf_to_pickup_Some:
  "shelf_to_pickup shs p = Some k \<Longrightarrow> \<exists>sd. (k, sd) \<in> set shs \<and> shelf_pos sd = Some p"
  by (induction shs) (auto split: if_splits)

lemma placed_shelf_to_pickup:
  assumes "distinct (map fst (shelves s))" and "shelf_to_pickup (shelves s) p = Some k"
  shows "placed s k = Some (Some p)"
proof -
  obtain sd where "(k, sd) \<in> set (shelves s)" and "shelf_pos sd = Some p"
    using assms(2) shelf_to_pickup_Some by blast
  then show ?thesis
    using assms(1) by (simp add: placed_def)
qed

lemma map_of_update_shelf:
  "map_of (update_shelf k f shs) x =
     (if x = k then map_option f (map_of shs k) else map_of shs x)"
  by (auto simp: update_shelf_def update_conv' split: option.splits)

lemma distinct_update_shelf:
  "distinct (map fst shs) \<Longrightarrow> distinct (map fst (update_shelf k f shs))"
  by (auto simp: update_shelf_def distinct_update split: option.splits)

lemma move_effect:
  assumes "apply_action cur nxt (r, Move dx dy) = Done n'"
  shows "carrier n' = carrier nxt \<and> placed n' = placed nxt \<and> shelves n' = shelves nxt"
  using assms
  by (auto simp: apply_action_def carrier_def placed_def fun_eq_iff split: option.splits)

lemma deliver_effect:
  assumes "apply_action cur nxt (r, Deliver order_id p u) = Done n'"
  shows "carrier n' = carrier nxt \<and> placed n' = placed nxt \<and>
         (distinct (map fst (shelves nxt)) \<longrightarrow> distinct (map fst (shelves n')))"
  using assms
  by (auto simp: apply_action_def deliver_def Let_def carrier_def placed_def fun_eq_iff
      update_conv' distinct_update split: option.splits if_splits)

lemma pickup_effect:
  assumes "apply_action cur nxt (r, Pickup) = Done n'"
    and "distinct (map fst (shelves cur))"
  shows "\<exists>rc k. robots cur r = Some rc \<and> placed cur k = Some (Some (pos rc)) \<and>
           carrier n' = (carrier nxt)(r := Some (Some k)) \<and>
           placed n' = (placed nxt)(k := map_option (\<lambda>_. None) (placed nxt k)) \<and>
           (distinct (map fst (shelves nxt)) \<longrightarrow> distinct (map fst (shelves n')))"
proof -
  obtain rc rn where rc: "robots cur r = Some rc" and rn: "robots nxt r = Some rn"
    and p: "pickup cur nxt r rc rn = Done n'"
    using assms(1) by (auto simp: apply_action_def split: option.splits)
  then obtain k where k: "shelf_to_pickup (shelves cur) (pos rc) = Some k"
    and n': "n' = nxt\<lparr>robots := (robots nxt)(r \<mapsto> rn\<lparr>carries := Some k\<rparr>),
                    shelves := update_shelf k (\<lambda>sd. sd\<lparr>shelf_pos := None\<rparr>) (shelves nxt)\<rparr>"
    by (auto simp: pickup_def truthy_def split: option.splits if_splits)
  have "placed cur k = Some (Some (pos rc))"
    using assms(2) k by (rule placed_shelf_to_pickup)
  moreover have "carrier n' = (carrier nxt)(r := Some (Some k))"
    by (auto simp: n' carrier_def fun_eq_iff)
  moreover have "placed n' = (placed nxt)(k := map_option (\<lambda>_. None) (placed nxt k))"
    by (auto simp: n' placed_def fun_eq_iff map_of_update_shelf option.map_comp comp_def)
  moreover have "distinct (map fst (shelves nxt)) \<longrightarrow> distinct (map fst (shelves n'))"
    by (simp add: n' distinct_update_shelf)
  ultimately show ?thesis using rc by blast
qed

lemma putdown_effect:
  assumes "apply_action cur nxt (r, Putdown) = Done n'"
  shows "\<exists>rc k. robots cur r = Some rc \<and> carries rc = Some k \<and>
           carrier n' = (carrier nxt)(r := Some None) \<and>
           placed n' = (placed nxt)(k := map_option (\<lambda>_. Some (pos rc)) (placed nxt k)) \<and>
           (distinct (map fst (shelves nxt)) \<longrightarrow> distinct (map fst (shelves n')))"
proof -
  obtain rc rn where rc: "robots cur r = Some rc" and rn: "robots nxt r = Some rn"
    and p: "putdown nxt r rc rn = Done n'"
    using assms(1) by (auto simp: apply_action_def split: option.splits)
  then obtain k where k: "carries rc = Some k"
    and n': "n' = nxt\<lparr>robots := (robots nxt)(r \<mapsto> rn\<lparr>carries := None\<rparr>),
                    shelves := update_shelf k (\<lambda>sd. sd\<lparr>shelf_pos := Some (pos rc)\<rparr>)
                      (shelves nxt)\<rparr>"
    by (auto simp: putdown_def truthy_def split: option.splits if_splits)
  have "carrier n' = (carrier nxt)(r := Some None)"
    by (auto simp: n' carrier_def fun_eq_iff)
  moreover have
    "placed n' = (placed nxt)(k := map_option (\<lambda>_. Some (pos rc)) (placed nxt k))"
    by (auto simp: n' placed_def fun_eq_iff map_of_update_shelf option.map_comp comp_def)
  moreover have "distinct (map fst (shelves nxt)) \<longrightarrow> distinct (map fst (shelves n'))"
    by (simp add: n' distinct_update_shelf)
  ultimately show ?thesis using rc k by blast
qed
lemma carry_origin_mono:
  "carry_origin cur D nxt \<Longrightarrow> carry_origin cur (insert a D) nxt"
  unfolding carry_origin_def by blast

lemma carry_inv_same:
  assumes "carry_inv cur D nxt"
    and "carrier n' = carrier nxt" and "placed n' = placed nxt"
    and "distinct (map fst (shelves nxt)) \<longrightarrow> distinct (map fst (shelves n'))"
  shows "carry_inv cur (insert a D) n'"
  using assms carry_origin_mono [of cur D nxt a]
  unfolding carry_inv_def exclusive_def carried_unplaced_def carry_origin_def
  by simp

lemma carry_inv_pickup:
  assumes ok: "carrying_ok cur"
    and sep: "separate_pickups cur (insert (r, Pickup) D)"
    and inv: "carry_inv cur D nxt"
    and step: "apply_action cur nxt (r, Pickup) = Done n'"
  shows "carry_inv cur (insert (r, Pickup) D) n'"
proof -
  have dist_cur: "distinct (map fst (shelves cur))" and unplaced_cur: "carried_unplaced cur"
    using ok by (simp_all add: carrying_ok_def)
  obtain rc k where rc: "robots cur r = Some rc"
    and k: "placed cur k = Some (Some (pos rc))"
    and car: "carrier n' = (carrier nxt)(r := Some (Some k))"
    and pl: "placed n' = (placed nxt)(k := map_option (\<lambda>_. None) (placed nxt k))"
    and dist: "distinct (map fst (shelves nxt)) \<longrightarrow> distinct (map fst (shelves n'))"
    using pickup_effect [OF step dist_cur] by blast
  have d: "distinct (map fst (shelves nxt))" and ex: "exclusive nxt"
    and un: "carried_unplaced nxt" and org: "carry_origin cur D nxt"
    using inv by (simp_all add: carry_inv_def)
  have other: "r2 = r" if "carrier nxt r2 = Some (Some k)" for r2
  proof -
    from org that have
      "carrier cur r2 = Some (Some k) \<or>
       ((r2, Pickup) \<in> D \<and>
        (\<exists>rc2. robots cur r2 = Some rc2 \<and> placed cur k = Some (Some (pos rc2))))"
      unfolding carry_origin_def by blast
    then show ?thesis
    proof
      assume "carrier cur r2 = Some (Some k)"
      then have "placed cur k \<noteq> Some (Some (pos rc))"
        using unplaced_cur unfolding carried_unplaced_def by blast
      then show ?thesis using k by simp
    next
      assume "(r2, Pickup) \<in> D \<and>
        (\<exists>rc2. robots cur r2 = Some rc2 \<and> placed cur k = Some (Some (pos rc2)))"
      then obtain rc2 where "(r2, Pickup) \<in> D" and "robots cur r2 = Some rc2"
        and "pos rc2 = pos rc"
        using k by auto
      then show ?thesis
        using sep rc unfolding separate_pickups_def by blast
    qed
  qed
  have "exclusive n'"
    unfolding exclusive_def
  proof (intro allI impI)
    fix r1 r2 sh
    assume a1: "carrier n' r1 = Some (Some sh)" and a2: "carrier n' r2 = Some (Some sh)"
    show "r1 = r2"
    proof (cases "r1 = r")
      case True
      then have "sh = k" using a1 car by simp
      then show ?thesis using a2 car other True by (cases "r2 = r") auto
    next
      case False
      then have c1: "carrier nxt r1 = Some (Some sh)" using a1 car by simp
      show ?thesis
      proof (cases "r2 = r")
        case True
        then have "sh = k" using a2 car by simp
        then show ?thesis using c1 other True by auto
      next
        case False
        then have "carrier nxt r2 = Some (Some sh)" using a2 car by simp
        then show ?thesis using c1 ex unfolding exclusive_def by blast
      qed
    qed
  qed
  moreover have "carried_unplaced n'"
    unfolding carried_unplaced_def
  proof (intro allI impI)
    fix r1 sh p
    assume a1: "carrier n' r1 = Some (Some sh)"
    show "placed n' sh \<noteq> Some (Some p)"
    proof (cases "sh = k")
      case True
      then show ?thesis using pl by (cases "placed nxt k") auto
    next
      case False
      then have "carrier nxt r1 = Some (Some sh)"
        using a1 car by (cases "r1 = r") auto
      then have "placed nxt sh \<noteq> Some (Some p)"
        using un unfolding carried_unplaced_def by blast
      then show ?thesis using False pl by simp
    qed
  qed
  moreover have "carry_origin cur (insert (r, Pickup) D) n'"
    unfolding carry_origin_def
  proof (intro allI impI)
    fix r1 sh
    assume a1: "carrier n' r1 = Some (Some sh)"
    show "carrier cur r1 = Some (Some sh) \<or>
          ((r1, Pickup) \<in> insert (r, Pickup) D \<and>
           (\<exists>rc. robots cur r1 = Some rc \<and> placed cur sh = Some (Some (pos rc))))"
    proof (cases "r1 = r")
      case True
      then have "sh = k" using a1 car by simp
      then show ?thesis using True rc k by auto
    next
      case False
      then have "carrier nxt r1 = Some (Some sh)" using a1 car by simp
      then show ?thesis using org unfolding carry_origin_def by blast
    qed
  qed
  ultimately show ?thesis
    using d dist by (simp add: carry_inv_def)
qed

lemma carry_inv_putdown:
  assumes ok: "carrying_ok cur"
    and inv: "carry_inv cur D nxt"
    and step: "apply_action cur nxt (r, Putdown) = Done n'"
  shows "carry_inv cur (insert (r, Putdown) D) n'"
proof -
  have ex_cur: "exclusive cur" and unplaced_cur: "carried_unplaced cur"
    using ok by (simp_all add: carrying_ok_def)
  obtain rc k where rc: "robots cur r = Some rc" and k: "carries rc = Some k"
    and car: "carrier n' = (carrier nxt)(r := Some None)"
    and pl: "placed n' = (placed nxt)(k := map_option (\<lambda>_. Some (pos rc)) (placed nxt k))"
    and dist: "distinct (map fst (shelves nxt)) \<longrightarrow> distinct (map fst (shelves n'))"
    using putdown_effect [OF step] by blast
  have d: "distinct (map fst (shelves nxt))" and ex: "exclusive nxt"
    and un: "carried_unplaced nxt" and org: "carry_origin cur D nxt"
    using inv by (simp_all add: carry_inv_def)
  have cur_k: "carrier cur r = Some (Some k)"
    using rc k by (simp add: carrier_def)
  have other: "r2 = r" if "carrier nxt r2 = Some (Some k)" for r2
  proof -
    from org that have
      "carrier cur r2 = Some (Some k) \<or>
       ((r2, Pickup) \<in> D \<and>
        (\<exists>rc2. robots cur r2 = Some rc2 \<and> placed cur k = Some (Some (pos rc2))))"
      unfolding carry_origin_def by blast
    then show ?thesis
    proof
      assume "carrier cur r2 = Some (Some k)"
      then show ?thesis using cur_k ex_cur unfolding exclusive_def by blast
    next
      assume "(r2, Pickup) \<in> D \<and>
        (\<exists>rc2. robots cur r2 = Some rc2 \<and> placed cur k = Some (Some (pos rc2)))"
      then obtain p where "placed cur k = Some (Some p)" by blast
      then show ?thesis
        using cur_k unplaced_cur unfolding carried_unplaced_def by blast
    qed
  qed
  have "exclusive n'"
    unfolding exclusive_def
  proof (intro allI impI)
    fix r1 r2 sh
    assume a1: "carrier n' r1 = Some (Some sh)" and a2: "carrier n' r2 = Some (Some sh)"
    have "r1 \<noteq> r" and "r2 \<noteq> r" using a1 a2 car by auto
    then have "carrier nxt r1 = Some (Some sh)" and "carrier nxt r2 = Some (Some sh)"
      using a1 a2 car by auto
    then show "r1 = r2" using ex unfolding exclusive_def by blast
  qed
  moreover have "carried_unplaced n'"
    unfolding carried_unplaced_def
  proof (intro allI impI)
    fix r1 sh p
    assume a1: "carrier n' r1 = Some (Some sh)"
    have r1: "r1 \<noteq> r" using a1 car by auto
    then have c1: "carrier nxt r1 = Some (Some sh)" using a1 car by auto
    then have "sh \<noteq> k" using other r1 by blast
    moreover have "placed nxt sh \<noteq> Some (Some p)"
      using c1 un unfolding carried_unplaced_def by blast
    ultimately show "placed n' sh \<noteq> Some (Some p)" using pl by simp
  qed
  moreover have "carry_origin cur (insert (r, Putdown) D) n'"
    unfolding carry_origin_def
  proof (intro allI impI)
    fix r1 sh
    assume a1: "carrier n' r1 = Some (Some sh)"
    have "r1 \<noteq> r" using a1 car by auto
    then have "carrier nxt r1 = Some (Some sh)" using a1 car by auto
    then show "carrier cur r1 = Some (Some sh) \<or>
          ((r1, Pickup) \<in> insert (r, Putdown) D \<and>
           (\<exists>rc. robots cur r1 = Some rc \<and> placed cur sh = Some (Some (pos rc))))"
      using org unfolding carry_origin_def by blast
  qed
  ultimately show ?thesis
    using d dist by (simp add: carry_inv_def)
qed

lemma carry_inv_step:
  assumes ok: "carrying_ok cur"
    and sep: "separate_pickups cur (insert a D)"
    and inv: "carry_inv cur D nxt"
    and step: "apply_action cur nxt a = Done n'"
  shows "carry_inv cur (insert a D) n'"
proof (cases a)
  case (Pair r act)
  show ?thesis
  proof (cases act)
    case (Move dx dy)
    then show ?thesis
      using move_effect [of cur nxt r dx dy n'] step Pair inv
      by (intro carry_inv_same) auto
  next
    case Pickup
    then show ?thesis
      using carry_inv_pickup [OF ok _ inv] sep step Pair by simp
  next
    case Putdown
    then show ?thesis
      using carry_inv_putdown [OF ok inv] step Pair by simp
  next
    case (Deliver order_id p u)
    then show ?thesis
      using deliver_effect [of cur nxt r order_id p u n'] step Pair inv
      by (intro carry_inv_same) auto
  qed
qed

lemma separate_pickups_subset:
  "separate_pickups s B \<Longrightarrow> A \<subseteq> B \<Longrightarrow> separate_pickups s A"
  unfolding separate_pickups_def by blast

lemma carry_inv_loop:
  assumes ok: "carrying_ok cur"
  shows "separate_pickups cur (D \<union> set acts) \<Longrightarrow> carry_inv cur D nxt \<Longrightarrow>
         apply_actions cur nxt acts = Inr s' \<Longrightarrow> \<exists>D'. carry_inv cur D' s'"
proof (induction acts arbitrary: D nxt)
  case Nil
  then show ?case by auto
next
  case (Cons a acts)
  have sep': "separate_pickups cur (insert a D \<union> set acts)"
    using Cons.prems(1) by simp
  show ?case
  proof (cases "apply_action cur nxt a")
    case (Done n')
    have "separate_pickups cur (insert a D)"
      using sep' by (rule separate_pickups_subset) auto
    then have "carry_inv cur (insert a D) n'"
      using ok Cons.prems(2) Done by (intro carry_inv_step)
    moreover have "apply_actions cur n' acts = Inr s'"
      using Cons.prems(3) Done by simp
    ultimately show ?thesis using Cons.IH sep' by blast
  next
    case (Skipped w)
    then have "apply_actions cur nxt acts = Inr s'" using Cons.prems(3) by simp
    moreover have "separate_pickups cur (D \<union> set acts)"
      using Cons.prems(1) by (rule separate_pickups_subset) auto
    ultimately show ?thesis using Cons.IH Cons.prems(2) by blast
  next
    case (Raised e)
    then show ?thesis using Cons.prems by simp
  qed
qed

lemma carry_inv_start: "carrying_ok s \<Longrightarrow> carry_inv s {} s"
  by (simp add: carrying_ok_def carry_inv_def carry_origin_def)

lemma carrying_ok_update_state:
  assumes "carrying_ok s" and "separate_pickups s (set acts)" and "update_state s acts = Inr s'"
  shows "carrying_ok s'"
proof -
  have "\<exists>D'. carry_inv s D' s'"
    using assms carry_inv_loop [of s "{}" acts s s'] carry_inv_start [of s]
    by (simp add: update_state_def)
  then show ?thesis by (auto simp: carry_inv_def carrying_ok_def)
qed

lemma replayed_carrying_ok: "replayed s0 s \<Longrightarrow> carrying_ok s0 \<Longrightarrow> carrying_ok s"
  by (induction rule: replayed.induct) (auto intro: carrying_ok_update_state)

text \<open>
  C5 (amended). In every state reached from an initial state with pairwise distinct
  shelf keys, in which no two robots carry the same shelf and no carried shelf has a
  position (any parsed initial state: no robot carries anything), by calls of
  \<open>update_state\<close> whose action lists never hold Pickups by two distinct robots standing
  on the same position at the start of that timestep, no two distinct robots carry the
  same shelf.
\<close>

theorem one_carrier_per_shelf:
  assumes "replayed s0 s" and "carrying_ok s0"
  shows "exclusive s"
  using replayed_carrying_ok [OF assms] by (simp add: carrying_ok_def)

lemma carrying_ok_initial:
  assumes "distinct (map fst (shelves s))" and "\<forall>r rb. robots s r = Some rb \<longrightarrow> carries rb = None"
  shows "carrying_ok s"
  using assms
  by (auto simp: carrying_ok_def exclusive_def carried_unplaced_def carrier_def)

theorem one_carrier_per_shelf_witness:
  "carrying_ok two_shelves_state \<and>
   separate_pickups two_shelves_state (set [(''r1'', Pickup), (''r2'', Pickup)]) \<and>
   update_state two_shelves_state [(''r1'', Pickup), (''r2'', Pickup)] =
     Inr two_carriers_state \<and>
   replayed two_shelves_state two_carriers_state \<and>
   carrier two_carriers_state ''r1'' = Some (Some ''s1'') \<and>
   carrier two_carriers_state ''r2'' = Some (Some ''s2'') \<and>
   exclusive two_carriers_state"
proof -
  have ok: "carrying_ok two_shelves_state"
    by (rule carrying_ok_initial)
       (auto simp: two_shelves_state_def scenario_state_def split: if_splits)
  have sep: "separate_pickups two_shelves_state (set [(''r1'', Pickup), (''r2'', Pickup)])"
    by (auto simp: separate_pickups_def two_shelves_state_def scenario_state_def
        split: if_splits)
  have up: "update_state two_shelves_state [(''r1'', Pickup), (''r2'', Pickup)] =
      Inr two_carriers_state"
    by (simp add: two_shelves_state_def two_carriers_state_def scenario_state_def engine_defs
        fun_upd_twist)
  have reach: "replayed two_shelves_state two_carriers_state"
    using replayed_step [OF replayed_start sep up] .
  have "carrier two_carriers_state ''r1'' = Some (Some ''s1'')"
    and "carrier two_carriers_state ''r2'' = Some (Some ''s2'')"
    by (simp_all add: carrier_def two_carriers_state_def)
  then show ?thesis
    using ok sep up reach one_carrier_per_shelf [OF reach ok] by simp
qed

section \<open>The parsed initial state lists every product everywhere\<close>

lemma dom_setdefault: "dom (setdefault d k v) = insert k (dom d)"
  by (auto simp: setdefault_def split: option.splits)

lemma dom_ensure_defaults: "dom (ensure_defaults ps d) = dom d \<union> set ps"
  unfolding ensure_defaults_def
  by (induction ps arbitrary: d) (auto simp: dom_setdefault)

lemma setdefault_keeps: "d p = Some v \<Longrightarrow> setdefault d k x p = Some v"
  by (auto simp: setdefault_def split: option.splits)

lemma ensure_defaults_keeps:
  "d p = Some v \<Longrightarrow> ensure_defaults ps d p = Some v"
  unfolding ensure_defaults_def
  by (induction ps arbitrary: d) (simp_all add: setdefault_keeps)

lemma products_parse_init_line:
  "set (products (init_state (parse_init_line v line))) =
     set (products (init_state v)) \<union> set (line_products line)"
  by (cases line) auto

lemma products_parse_init_lines:
  "set (products (init_state (fold (\<lambda>line v. parse_init_line v line) lines v))) =
     set (products (init_state v)) \<union> product_universe lines"
  unfolding product_universe_def
  by (induction lines arbitrary: v) (auto simp: products_parse_init_line)

text \<open>
  C7. For every readable fact file, \<open>parse_init\<close> returns a state whose products are
  the products mentioned by the product-quantity and order-line facts of the file, and
  in which the quantities of every shelf and the requirements of every order have an
  entry for each of these products.
\<close>

theorem parse_init_normalized:
  "\<exists>s dims.
     parse_init (Some lines) = Some (s, dims) \<and>
     set (products s) = product_universe lines \<and>
     (\<forall>(shelf_id, sd) \<in> set (shelves s). \<forall>p \<in> product_universe lines. p \<in> dom (quantities sd)) \<and>
     (\<forall>order_id od. orders s order_id = Some od \<longrightarrow>
        (\<forall>p \<in> product_universe lines. p \<in> dom (requirements od)))"
proof -
  define v where
    "v = fold (\<lambda>line v. parse_init_line v line) lines
           \<lparr>init_state = empty_state, max_x = 0, max_y = 0,
            shelf_quantities_temp = [], order_reqs_temp = [],
            order_station_temp = Map.empty\<rparr>"
  have ps: "set (products (init_state v)) = product_universe lines"
    unfolding v_def by (simp add: products_parse_init_lines empty_state_def)
  obtain s dims where r: "parse_init (Some lines) = Some (s, dims)"
    by (simp add: parse_init_def Let_def)
  have prods: "products s = products (init_state v)"
    using r by (auto simp: parse_init_def Let_def v_def)
  have shs: "\<exists>sd0. sd = sd0\<lparr>quantities := ensure_defaults (products (init_state v)) (quantities sd0)\<rparr>"
    if "(shelf_id, sd) \<in> set (shelves s)" for shelf_id sd
    using r that by (auto simp: parse_init_def Let_def v_def)
  have ords: "\<exists>od0. od = od0\<lparr>requirements := ensure_defaults (products (init_state v)) (requirements od0)\<rparr>"
    if "orders s order_id = Some od" for order_id od
    using r that by (auto simp: parse_init_def Let_def v_def)
  have "\<forall>(shelf_id, sd) \<in> set (shelves s). \<forall>p \<in> product_universe lines. p \<in> dom (quantities sd)"
  proof (clarify)
    fix shelf_id sd p
    assume "(shelf_id, sd) \<in> set (shelves s)" and p: "p \<in> product_universe lines"
    then obtain sd0 where
      "sd = sd0\<lparr>quantities := ensure_defaults (products (init_state v)) (quantities sd0)\<rparr>"
      using shs by blast
    then have "dom (quantities sd) = dom (quantities sd0) \<union> product_universe lines"
      using ps by (simp add: dom_ensure_defaults)
    then show "\<exists>y. quantities sd p = Some y" using p by blast
  qed
  moreover have "\<forall>order_id od. orders s order_id = Some od \<longrightarrow>
        (\<forall>p \<in> product_universe lines. p \<in> dom (requirements od))"
  proof (clarify)
    fix order_id od p
    assume "orders s order_id = Some od" and p: "p \<in> product_universe lines"
    then obtain od0 where
      "od = od0\<lparr>requirements := ensure_defaults (products (init_state v)) (requirements od0)\<rparr>"
      using ords by blast
    then have "dom (requirements od) = dom (requirements od0) \<union> product_universe lines"
      using ps by (simp add: dom_ensure_defaults)
    then show "\<exists>y. requirements od p = Some y" using p by blast
  qed
  ultimately show ?thesis using r prods ps by auto
qed
lemma sample_universe:
  "product_universe sample_lines = {''p1'', ''p2'', ''p3'', ''p4''}"
  by (auto simp: product_universe_def sample_lines_def)

lemma sample_parse:
  "case parse_init (Some sample_lines) of
     None \<Rightarrow> False
   | Some (s, dims) \<Rightarrow>
       dims = (2, 2) \<and>
       products s = [''p4'', ''p2'', ''p3'', ''p1''] \<and>
       map (\<lambda>(k, sd). (k, shelf_pos sd, map (quantities sd) [''p1'', ''p2'', ''p3'', ''p4'', ''p5'']))
         (shelves s) =
         [(''s1'', Some (1, 1), [Some 5, Some 0, Some 0, Some 0, None]),
          (''s2'', Some (2, 1), [Some 0, Some 0, Some 0, Some 0, None])] \<and>
       map_option (\<lambda>od. (station_id od, map (requirements od) [''p1'', ''p2'', ''p3'', ''p4'', ''p5'']))
         (orders s ''o1'') = Some (''st1'', [Some 0, Some 3, Some 0, Some 0, None]) \<and>
       orders s ''o2'' = None \<and>
       robots s ''r1'' = Some \<lparr>pos = (1, 1), carries = None\<rparr>"
  by (simp add: parse_init_def sample_lines_def Let_def empty_state_def store_nested_def
      link_shelf_def link_order_def ensure_defaults_def setdefault_def)

theorem parse_init_normalized_witness:
  "product_universe sample_lines = {''p1'', ''p2'', ''p3'', ''p4''} \<and>
   (\<exists>s dims.
      parse_init (Some sample_lines) = Some (s, dims) \<and>
      set (products s) = {''p1'', ''p2'', ''p3'', ''p4''} \<and>
      (\<forall>(shelf_id, sd) \<in> set (shelves s).
         \<forall>p \<in> {''p1'', ''p2'', ''p3'', ''p4''}. p \<in> dom (quantities sd)) \<and>
      (\<forall>order_id od. orders s order_id = Some od \<longrightarrow>
         (\<forall>p \<in> {''p1'', ''p2'', ''p3'', ''p4''}. p \<in> dom (requirements od))))"
  using parse_init_normalized [of sample_lines] sample_universe by simp

section \<open>A plan document without its top-level fields\<close>

lemma read_plan_missing:
  assumes "missing_top_level data"
  shows "read_plan occurs action_of data = Inr (Map.empty, 0)"
proof (cases data)
  case (JObj kvs)
  show ?thesis
  proof (cases "map_of kvs ''Call''")
    case None
    then show ?thesis using JObj by (simp add: read_plan_def)
  next
    case (Some call)
    then obtain c calls where call: "call = JArr (JObj c # calls)"
      and w: "map_of c ''Witnesses'' = None"
      using assms JObj
      by (auto split: json.splits list.splits)
    show ?thesis
      using JObj Some call w by (simp add: read_plan_def)
  qed
qed (use assms in simp_all)

text \<open>
  C8 (as stated). The document \<open>{}\<close> has no \<open>'Call'\<close> entry; \<open>parse_plan\<close> returns the
  empty plan for it, not \<open>None\<close>, and the run does not exit: it completes in the
  initial state.
\<close>

theorem missing_fields_not_fatal_counterexample:
  "missing_top_level (JObj []) \<and>
   parse_plan (\<lambda>atom. None) (\<lambda>part. None) (Plan_document (JObj [])) = Some (Map.empty, 0) \<and>
   main (\<lambda>atom. None) (\<lambda>part. None) (Some []) (Plan_document (JObj [])) =
     Completed empty_state \<and>
   main (\<lambda>atom. None) (\<lambda>part. None) (Some []) (Plan_document (JObj [])) \<noteq> Exit_1"
  by (simp add: parse_plan_def read_plan_def main_def parse_init_def Let_def empty_state_def
      fun_eq_iff)

text \<open>
  C8 (amended). For every plan document that is readable and parses as a JSON object
  with no \<open>'Call'\<close> entry, or with no \<open>'Witnesses'\<close> entry in its first call, the plan parser
  warns and returns the empty plan with maximum timestep 0. This is not fatal: the run
  exits with status 1 only when the fact file cannot be read, and otherwise completes
  in the parsed initial state, no action applied.
\<close>

theorem missing_fields_empty_plan:
  assumes "missing_top_level data"
  shows "parse_plan occurs action_of (Plan_document data) = Some (Map.empty, 0) \<and>
         main occurs action_of init_file (Plan_document data) =
           (case parse_init init_file of
              None \<Rightarrow> Exit_1
            | Some (initial_state, grid_dims) \<Rightarrow> Completed initial_state)"
  using read_plan_missing [OF assms, of occurs action_of]
  by (auto simp: parse_plan_def main_def split: option.splits)

theorem missing_fields_empty_plan_witness:
  "missing_top_level (JObj [(''Call'', JArr [JObj [(''Threads'', JNum 1)]])]) \<and>
   parse_plan (\<lambda>atom. None) (\<lambda>part. None)
     (Plan_document (JObj [(''Call'', JArr [JObj [(''Threads'', JNum 1)]])])) =
     Some (Map.empty, 0) \<and>
   main (\<lambda>atom. None) (\<lambda>part. None) (Some [])
     (Plan_document (JObj [(''Call'', JArr [JObj [(''Threads'', JNum 1)]])])) =
     Completed empty_state"
  using missing_fields_empty_plan [of "JObj [(''Call'', JArr [JObj [(''Threads'', JNum 1)]])]"
      "\<lambda>atom. None" "\<lambda>part. None" "Some []"]
  by (simp add: parse_init_def Let_def empty_state_def fun_eq_iff)

section \<open>Reading a state from the store\<close>

lemma map_of_map_snd:
  "map_of (map (\<lambda>(k, a). (k, f a)) refs) k = map_option f (map_of refs k)"
  by (induction refs) auto

lemma shelf_to_pickup_heap_read:
  "shelf_to_pickup_heap h refs p =
     shelf_to_pickup (map (\<lambda>(k, a). (k, read_shelf h a)) refs) p"
  by (induction refs) (auto simp: read_shelf_def)

lemma occupied_heap_read:
  "occupied_heap h refs p c = occupied (map (\<lambda>(k, a). (k, read_shelf h a)) refs) p c"
  by (induction refs) (auto simp: read_shelf_def split: if_splits)

lemma read_state_simps:
  "nodes (read_state h ref) = ref_nodes ref"
  "highways (read_state h ref) = ref_highways ref"
  "picking_stations (read_state h ref) = ref_picking_stations ref"
  "robots (read_state h ref) r = map_option (robot_cells h) (map_of (ref_robots ref) r)"
  "shelves (read_state h ref) = map (\<lambda>(k, a). (k, read_shelf h a)) (ref_shelves ref)"
  "products (read_state h ref) = ref_products ref"
  "orders (read_state h ref) ord = map_option (read_order h) (map_of (ref_orders ref) ord)"
  by (simp_all add: read_state_def)

lemma map_of_shelves_read:
  "map_of (shelves (read_state h ref)) k = map_option (read_shelf h) (map_of (ref_shelves ref) k)"
  by (simp add: read_state_simps map_of_map_snd)

text \<open>Two stores that agree on the objects of a state give the same state.\<close>

lemma read_state_cong:
  assumes "\<forall>kv \<in> set (ref_robots ref). robot_cells h' (snd kv) = robot_cells h (snd kv)"
    and "\<forall>kv \<in> set (ref_shelves ref). read_shelf h' (snd kv) = read_shelf h (snd kv)"
    and "\<forall>kv \<in> set (ref_orders ref). read_order h' (snd kv) = read_order h (snd kv)"
  shows "read_state h' ref = read_state h ref"
proof -
  have "map_option (robot_cells h') (map_of (ref_robots ref) r) =
        map_option (robot_cells h) (map_of (ref_robots ref) r)" for r
    using assms(1) by (cases "map_of (ref_robots ref) r") (force dest: map_of_SomeD)+
  moreover have "map_option (read_order h') (map_of (ref_orders ref) r) =
        map_option (read_order h) (map_of (ref_orders ref) r)" for r
    using assms(3) by (cases "map_of (ref_orders ref) r") (force dest: map_of_SomeD)+
  moreover have "map (\<lambda>(k, a). (k, read_shelf h' a)) (ref_shelves ref) =
        map (\<lambda>(k, a). (k, read_shelf h a)) (ref_shelves ref)"
    using assms(2) by (auto intro!: map_cong)
  ultimately show ?thesis by (simp add: read_state_def)
qed

lemma allocated_dicts:
  assumes "allocated h ref"
  shows "\<forall>kv \<in> set (ref_shelves ref). cell_quantities (shelf_cells h (snd kv)) < next_addr h"
    and "\<forall>kv \<in> set (ref_orders ref). cell_requirements (order_cells h (snd kv)) < next_addr h"
    and "\<forall>kv \<in> set (ref_robots ref). snd kv < next_addr h"
    and "\<forall>kv \<in> set (ref_shelves ref). snd kv < next_addr h"
    and "\<forall>kv \<in> set (ref_orders ref). snd kv < next_addr h"
  using assms by (auto simp: allocated_def dict_addrs_def list_all_iff)

lemma read_state_agree_below:
  assumes "allocated h0 ref" and "agree_below (next_addr h0) h0 h"
  shows "read_state h ref = read_state h0 ref"
proof (rule read_state_cong)
  show "\<forall>kv \<in> set (ref_robots ref). robot_cells h (snd kv) = robot_cells h0 (snd kv)"
    using assms allocated_dicts(3) [OF assms(1)] by (auto simp: agree_below_def)
  show "\<forall>kv \<in> set (ref_shelves ref). read_shelf h (snd kv) = read_shelf h0 (snd kv)"
    using assms(2) allocated_dicts(1,4) [OF assms(1)]
    by (auto simp: agree_below_def read_shelf_def)
  show "\<forall>kv \<in> set (ref_orders ref). read_order h (snd kv) = read_order h0 (snd kv)"
    using assms(2) allocated_dicts(2,5) [OF assms(1)]
    by (auto simp: agree_below_def read_order_def)
qed

section \<open>The deep copy\<close>

lemma copy_robots_frame:
  "copy_robots rs h = (rs', h') \<Longrightarrow>
     next_addr h \<le> next_addr h' \<and> shelf_cells h' = shelf_cells h \<and>
     order_cells h' = order_cells h \<and> dict_cells h' = dict_cells h \<and>
     (\<forall>a < next_addr h. robot_cells h' a = robot_cells h a)"
proof (induction rs arbitrary: h rs' h')
  case Nil
  then show ?case by simp
next
  case (Cons x rs)
  obtain k a where x: "x = (k, a)" by (cases x)
  let ?h1 = "h\<lparr>robot_cells := (robot_cells h)(next_addr h := robot_cells h a),
                next_addr := next_addr h + 1\<rparr>"
  obtain rest' where r: "copy_robots rs ?h1 = (rest', h')"
    using Cons.prems x by (auto split: prod.splits)
  from Cons.IH [OF r] show ?case by auto
qed

lemma copy_robots_new:
  "copy_robots rs h = (rs', h') \<Longrightarrow>
     map fst rs' = map fst rs \<and>
     list_all (\<lambda>kv. next_addr h \<le> snd kv \<and> snd kv < next_addr h') rs' \<and>
     distinct (map snd rs')"
proof (induction rs arbitrary: h rs' h')
  case Nil
  then show ?case by simp
next
  case (Cons x rs)
  obtain k a where x: "x = (k, a)" by (cases x)
  let ?h1 = "h\<lparr>robot_cells := (robot_cells h)(next_addr h := robot_cells h a),
                next_addr := next_addr h + 1\<rparr>"
  obtain rest' where r: "copy_robots rs ?h1 = (rest', h')" and rs': "rs' = (k, next_addr h) # rest'"
    using Cons.prems x by (auto split: prod.splits)
  have le: "next_addr ?h1 \<le> next_addr h'"
    using copy_robots_frame [OF r] by blast
  from Cons.IH [OF r] le show ?case
    by (auto simp: rs' x list_all_iff)
qed

lemma copy_robots_contents:
  "copy_robots rs h = (rs', h') \<Longrightarrow> list_all (\<lambda>kv. snd kv < next_addr h) rs \<Longrightarrow>
     map (\<lambda>(k, a). (k, robot_cells h' a)) rs' = map (\<lambda>(k, a). (k, robot_cells h a)) rs"
proof (induction rs arbitrary: h rs' h')
  case Nil
  then show ?case by simp
next
  case (Cons x rs)
  obtain k a where x: "x = (k, a)" by (cases x)
  let ?h1 = "h\<lparr>robot_cells := (robot_cells h)(next_addr h := robot_cells h a),
                next_addr := next_addr h + 1\<rparr>"
  obtain rest' where r: "copy_robots rs ?h1 = (rest', h')" and rs': "rs' = (k, next_addr h) # rest'"
    using Cons.prems(1) x by (auto split: prod.splits)
  have fr: "\<forall>b < next_addr ?h1. robot_cells h' b = robot_cells ?h1 b"
    using copy_robots_frame [OF r] by blast
  have "list_all (\<lambda>kv. snd kv < next_addr ?h1) rs"
    using Cons.prems(2) by (auto simp: list_all_iff)
  from Cons.IH [OF r this]
  have "map (\<lambda>(k, a). (k, robot_cells h' a)) rest' = map (\<lambda>(k, a). (k, robot_cells ?h1 a)) rs" .
  also have "\<dots> = map (\<lambda>(k, a). (k, robot_cells h a)) rs"
    using Cons.prems(2) by (auto simp: list_all_iff)
  finally show ?case
    using fr by (simp add: rs' x)
qed

lemma copy_shelves_frame:
  "copy_shelves rs h = (rs', h') \<Longrightarrow>
     next_addr h \<le> next_addr h' \<and> robot_cells h' = robot_cells h \<and>
     order_cells h' = order_cells h \<and>
     (\<forall>a < next_addr h. shelf_cells h' a = shelf_cells h a \<and> dict_cells h' a = dict_cells h a)"
proof (induction rs arbitrary: h rs' h')
  case Nil
  then show ?case by simp
next
  case (Cons x rs)
  obtain k a where x: "x = (k, a)" by (cases x)
  let ?h1 = "h\<lparr>dict_cells := (dict_cells h)
                  (next_addr h := dict_cells h (cell_quantities (shelf_cells h a))),
                shelf_cells := (shelf_cells h)
                  (next_addr h + 1 :=
                     \<lparr>cell_pos = cell_pos (shelf_cells h a), cell_quantities = next_addr h\<rparr>),
                next_addr := next_addr h + 2\<rparr>"
  obtain rest' where r: "copy_shelves rs ?h1 = (rest', h')"
    using Cons.prems x by (auto split: prod.splits)
  from Cons.IH [OF r] show ?case by auto
qed

lemma copy_shelves_new:
  "copy_shelves rs h = (rs', h') \<Longrightarrow>
     map fst rs' = map fst rs \<and>
     list_all (\<lambda>kv. next_addr h \<le> snd kv \<and> snd kv < next_addr h') rs' \<and>
     list_all (\<lambda>kv. next_addr h \<le> cell_quantities (shelf_cells h' (snd kv)) \<and>
                     cell_quantities (shelf_cells h' (snd kv)) < next_addr h') rs' \<and>
     distinct (map snd rs') \<and>
     distinct (map (\<lambda>kv. cell_quantities (shelf_cells h' (snd kv))) rs')"
proof (induction rs arbitrary: h rs' h')
  case Nil
  then show ?case by simp
next
  case (Cons x rs)
  obtain k a where x: "x = (k, a)" by (cases x)
  let ?h1 = "h\<lparr>dict_cells := (dict_cells h)
                  (next_addr h := dict_cells h (cell_quantities (shelf_cells h a))),
                shelf_cells := (shelf_cells h)
                  (next_addr h + 1 :=
                     \<lparr>cell_pos = cell_pos (shelf_cells h a), cell_quantities = next_addr h\<rparr>),
                next_addr := next_addr h + 2\<rparr>"
  obtain rest' where r: "copy_shelves rs ?h1 = (rest', h')"
    and rs': "rs' = (k, next_addr h + 1) # rest'"
    using Cons.prems x by (auto split: prod.splits)
  have fr: "next_addr ?h1 \<le> next_addr h'"
    "\<forall>b < next_addr ?h1. shelf_cells h' b = shelf_cells ?h1 b"
    using copy_shelves_frame [OF r] by blast+
  have head: "cell_quantities (shelf_cells h' (next_addr h + 1)) = next_addr h"
    using fr(2) by simp
  from Cons.IH [OF r] fr(1) head show ?case
    by (auto simp: rs' x list_all_iff)
qed

lemma copy_shelves_contents:
  "copy_shelves rs h = (rs', h') \<Longrightarrow>
   list_all (\<lambda>kv. snd kv < next_addr h \<and> cell_quantities (shelf_cells h (snd kv)) < next_addr h) rs \<Longrightarrow>
     map (\<lambda>(k, a). (k, read_shelf h' a)) rs' = map (\<lambda>(k, a). (k, read_shelf h a)) rs"
proof (induction rs arbitrary: h rs' h')
  case Nil
  then show ?case by simp
next
  case (Cons x rs)
  obtain k a where x: "x = (k, a)" by (cases x)
  let ?h1 = "h\<lparr>dict_cells := (dict_cells h)
                  (next_addr h := dict_cells h (cell_quantities (shelf_cells h a))),
                shelf_cells := (shelf_cells h)
                  (next_addr h + 1 :=
                     \<lparr>cell_pos = cell_pos (shelf_cells h a), cell_quantities = next_addr h\<rparr>),
                next_addr := next_addr h + 2\<rparr>"
  obtain rest' where r: "copy_shelves rs ?h1 = (rest', h')"
    and rs': "rs' = (k, next_addr h + 1) # rest'"
    using Cons.prems(1) x by (auto split: prod.splits)
  have fr: "\<forall>b < next_addr ?h1. shelf_cells h' b = shelf_cells ?h1 b \<and>
      dict_cells h' b = dict_cells ?h1 b"
    using copy_shelves_frame [OF r] by blast
  have "list_all (\<lambda>kv. snd kv < next_addr ?h1 \<and>
      cell_quantities (shelf_cells ?h1 (snd kv)) < next_addr ?h1) rs"
    using Cons.prems(2) by (auto simp: list_all_iff)
  from Cons.IH [OF r this]
  have "map (\<lambda>(k, a). (k, read_shelf h' a)) rest' = map (\<lambda>(k, a). (k, read_shelf ?h1 a)) rs" .
  also have "\<dots> = map (\<lambda>(k, a). (k, read_shelf h a)) rs"
    using Cons.prems(2) by (auto simp: list_all_iff read_shelf_def)
  finally have rest: "map (\<lambda>(k, a). (k, read_shelf h' a)) rest' =
      map (\<lambda>(k, a). (k, read_shelf h a)) rs" .
  have "read_shelf h' (next_addr h + 1) = read_shelf h a"
    using fr by (simp add: read_shelf_def)
  then show ?case
    using rest by (simp add: rs' x)
qed

lemma copy_orders_frame:
  "copy_orders rs h = (rs', h') \<Longrightarrow>
     next_addr h \<le> next_addr h' \<and> robot_cells h' = robot_cells h \<and>
     shelf_cells h' = shelf_cells h \<and>
     (\<forall>a < next_addr h. order_cells h' a = order_cells h a \<and> dict_cells h' a = dict_cells h a)"
proof (induction rs arbitrary: h rs' h')
  case Nil
  then show ?case by simp
next
  case (Cons x rs)
  obtain k a where x: "x = (k, a)" by (cases x)
  let ?h1 = "h\<lparr>dict_cells := (dict_cells h)
                  (next_addr h := dict_cells h (cell_requirements (order_cells h a))),
                order_cells := (order_cells h)
                  (next_addr h + 1 :=
                     \<lparr>cell_station_id = cell_station_id (order_cells h a), cell_requirements = next_addr h\<rparr>),
                next_addr := next_addr h + 2\<rparr>"
  obtain rest' where r: "copy_orders rs ?h1 = (rest', h')"
    using Cons.prems x by (auto split: prod.splits)
  from Cons.IH [OF r] show ?case by auto
qed

lemma copy_orders_new:
  "copy_orders rs h = (rs', h') \<Longrightarrow>
     map fst rs' = map fst rs \<and>
     list_all (\<lambda>kv. next_addr h \<le> snd kv \<and> snd kv < next_addr h') rs' \<and>
     list_all (\<lambda>kv. next_addr h \<le> cell_requirements (order_cells h' (snd kv)) \<and>
                     cell_requirements (order_cells h' (snd kv)) < next_addr h') rs' \<and>
     distinct (map snd rs') \<and>
     distinct (map (\<lambda>kv. cell_requirements (order_cells h' (snd kv))) rs')"
proof (induction rs arbitrary: h rs' h')
  case Nil
  then show ?case by simp
next
  case (Cons x rs)
  obtain k a where x: "x = (k, a)" by (cases x)
  let ?h1 = "h\<lparr>dict_cells := (dict_cells h)
                  (next_addr h := dict_cells h (cell_requirements (order_cells h a))),
                order_cells := (order_cells h)
                  (next_addr h + 1 :=
                     \<lparr>cell_station_id = cell_station_id (order_cells h a), cell_requirements = next_addr h\<rparr>),
                next_addr := next_addr h + 2\<rparr>"
  obtain rest' where r: "copy_orders rs ?h1 = (rest', h')"
    and rs': "rs' = (k, next_addr h + 1) # rest'"
    using Cons.prems x by (auto split: prod.splits)
  have fr: "next_addr ?h1 \<le> next_addr h'"
    "\<forall>b < next_addr ?h1. order_cells h' b = order_cells ?h1 b"
    using copy_orders_frame [OF r] by blast+
  have head: "cell_requirements (order_cells h' (next_addr h + 1)) = next_addr h"
    using fr(2) by simp
  from Cons.IH [OF r] fr(1) head show ?case
    by (auto simp: rs' x list_all_iff)
qed

lemma copy_orders_contents:
  "copy_orders rs h = (rs', h') \<Longrightarrow>
   list_all (\<lambda>kv. snd kv < next_addr h \<and> cell_requirements (order_cells h (snd kv)) < next_addr h) rs \<Longrightarrow>
     map (\<lambda>(k, a). (k, read_order h' a)) rs' = map (\<lambda>(k, a). (k, read_order h a)) rs"
proof (induction rs arbitrary: h rs' h')
  case Nil
  then show ?case by simp
next
  case (Cons x rs)
  obtain k a where x: "x = (k, a)" by (cases x)
  let ?h1 = "h\<lparr>dict_cells := (dict_cells h)
                  (next_addr h := dict_cells h (cell_requirements (order_cells h a))),
                order_cells := (order_cells h)
                  (next_addr h + 1 :=
                     \<lparr>cell_station_id = cell_station_id (order_cells h a), cell_requirements = next_addr h\<rparr>),
                next_addr := next_addr h + 2\<rparr>"
  obtain rest' where r: "copy_orders rs ?h1 = (rest', h')"
    and rs': "rs' = (k, next_addr h + 1) # rest'"
    using Cons.prems(1) x by (auto split: prod.splits)
  have fr: "\<forall>b < next_addr ?h1. order_cells h' b = order_cells ?h1 b \<and>
      dict_cells h' b = dict_cells ?h1 b"
    using copy_orders_frame [OF r] by blast
  have "list_all (\<lambda>kv. snd kv < next_addr ?h1 \<and>
      cell_requirements (order_cells ?h1 (snd kv)) < next_addr ?h1) rs"
    using Cons.prems(2) by (auto simp: list_all_iff)
  from Cons.IH [OF r this]
  have "map (\<lambda>(k, a). (k, read_order h' a)) rest' = map (\<lambda>(k, a). (k, read_order ?h1 a)) rs" .
  also have "\<dots> = map (\<lambda>(k, a). (k, read_order h a)) rs"
    using Cons.prems(2) by (auto simp: list_all_iff read_order_def)
  finally have rest: "map (\<lambda>(k, a). (k, read_order h' a)) rest' =
      map (\<lambda>(k, a). (k, read_order h a)) rs" .
  have "read_order h' (next_addr h + 1) = read_order h a"
    using fr by (simp add: read_order_def)
  then show ?case
    using rest by (simp add: rs' x)
qed

lemma deepcopy_correct:
  assumes alloc: "allocated h ref" and copy: "deepcopy ref h = (nxt, h1)"
  shows "copy_inv h ref nxt h1" and "read_state h1 nxt = read_state h ref"
proof -
  obtain rs' ha ss' hb os' where
    cr: "copy_robots (ref_robots ref) h = (rs', ha)" and
    cs: "copy_shelves (ref_shelves ref) ha = (ss', hb)" and
    co: "copy_orders (ref_orders ref) hb = (os', h1)" and
    nxt: "nxt = ref\<lparr>ref_robots := rs', ref_shelves := ss', ref_orders := os'\<rparr>"
    using copy by (auto simp: deepcopy_def split: prod.splits)
  note fr = copy_robots_frame [OF cr]
  note fs = copy_shelves_frame [OF cs]
  note fo = copy_orders_frame [OF co]
  note nr = copy_robots_new [OF cr]
  note ns = copy_shelves_new [OF cs]
  note no = copy_orders_new [OF co]
  note al = allocated_dicts [OF alloc]
  have le: "next_addr h \<le> next_addr ha" "next_addr ha \<le> next_addr hb"
    "next_addr hb \<le> next_addr h1"
    using fr fs fo by auto
  have agree: "agree_below (next_addr h) h h1"
    unfolding agree_below_def using fr fs fo le by auto
  have shelf_dicts:
    "list_all (\<lambda>kv. next_addr ha \<le> cell_quantities (shelf_cells h1 (snd kv)) \<and>
        cell_quantities (shelf_cells h1 (snd kv)) < next_addr hb) ss'"
    and shelf_dicts_distinct:
    "distinct (map (\<lambda>kv. cell_quantities (shelf_cells h1 (snd kv))) ss')"
    using ns fo by auto
  have order_dicts:
    "list_all (\<lambda>kv. next_addr hb \<le> cell_requirements (order_cells h1 (snd kv)) \<and>
        cell_requirements (order_cells h1 (snd kv)) < next_addr h1) os'"
    and order_dicts_distinct:
    "distinct (map (\<lambda>kv. cell_requirements (order_cells h1 (snd kv))) os')"
    using no by auto
  have ab: "above (next_addr h) h1 nxt"
    using nr ns no le shelf_dicts order_dicts
    by (auto simp: above_def nxt dict_addrs_def list_all_iff)
  have al1: "allocated h1 nxt"
    using nr ns no le shelf_dicts order_dicts
    by (auto simp: allocated_def nxt dict_addrs_def list_all_iff)
  have "distinct (dict_addrs h1 nxt)"
    using shelf_dicts order_dicts shelf_dicts_distinct order_dicts_distinct
    by (fastforce simp: nxt dict_addrs_def list_all_iff)
  then have un: "unshared h1 nxt"
    using nr ns no by (simp add: unshared_def nxt)
  show "copy_inv h ref nxt h1"
    using alloc agree le ab al1 un by (simp add: copy_inv_def)
  have robots_eq: "map (\<lambda>(k, a). (k, robot_cells h1 a)) rs' =
      map (\<lambda>(k, a). (k, robot_cells h a)) (ref_robots ref)"
  proof -
    have "robot_cells h1 = robot_cells ha" using fs fo by simp
    moreover have "list_all (\<lambda>kv. snd kv < next_addr h) (ref_robots ref)"
      using al(3) by (simp add: list_all_iff)
    ultimately show ?thesis using copy_robots_contents [OF cr] by simp
  qed
  have shelves_eq: "map (\<lambda>(k, a). (k, read_shelf h1 a)) ss' =
      map (\<lambda>(k, a). (k, read_shelf h a)) (ref_shelves ref)"
  proof -
    have "list_all (\<lambda>kv. snd kv < next_addr ha \<and>
        cell_quantities (shelf_cells ha (snd kv)) < next_addr ha) (ref_shelves ref)"
      using al(1,4) fr le by (auto simp: list_all_iff)
    from copy_shelves_contents [OF cs this]
    have "map (\<lambda>(k, a). (k, read_shelf hb a)) ss' =
        map (\<lambda>(k, a). (k, read_shelf ha a)) (ref_shelves ref)" .
    moreover have "map (\<lambda>(k, a). (k, read_shelf ha a)) (ref_shelves ref) =
        map (\<lambda>(k, a). (k, read_shelf h a)) (ref_shelves ref)"
      using fr by (simp add: read_shelf_def)
    moreover have "map (\<lambda>(k, a). (k, read_shelf h1 a)) ss' =
        map (\<lambda>(k, a). (k, read_shelf hb a)) ss'"
      using ns fo by (auto simp: read_shelf_def list_all_iff)
    ultimately show ?thesis by simp
  qed
  have orders_eq: "map (\<lambda>(k, a). (k, read_order h1 a)) os' =
      map (\<lambda>(k, a). (k, read_order h a)) (ref_orders ref)"
  proof -
    have "list_all (\<lambda>kv. snd kv < next_addr hb \<and>
        cell_requirements (order_cells hb (snd kv)) < next_addr hb) (ref_orders ref)"
      using al(2,5) fr fs le by (auto simp: list_all_iff)
    from copy_orders_contents [OF co this]
    have "map (\<lambda>(k, a). (k, read_order h1 a)) os' =
        map (\<lambda>(k, a). (k, read_order hb a)) (ref_orders ref)" .
    moreover have "map (\<lambda>(k, a). (k, read_order hb a)) (ref_orders ref) =
        map (\<lambda>(k, a). (k, read_order h a)) (ref_orders ref)"
      using al(2) fr fs le by (auto simp: read_order_def)
    ultimately show ?thesis by simp
  qed
  have "map_option (robot_cells h1) (map_of rs' r) =
      map_option (robot_cells h) (map_of (ref_robots ref) r)" for r
    using arg_cong [OF robots_eq, of "\<lambda>l. map_of l r"] by (simp add: map_of_map_snd)
  moreover have "map_option (read_order h1) (map_of os' r) =
      map_option (read_order h) (map_of (ref_orders ref) r)" for r
    using arg_cong [OF orders_eq, of "\<lambda>l. map_of l r"] by (simp add: map_of_map_snd)
  ultimately show "read_state h1 nxt = read_state h ref"
    using shelves_eq by (simp add: read_state_def nxt)
qed

section \<open>Writes to the objects of the copy\<close>

lemma map_of_distinct_snd:
  assumes "distinct (map snd refs)" and "map_of refs k = Some a" and "map_of refs k' = Some a"
  shows "k' = k"
proof -
  have "(k, a) \<in> set refs" "(k', a) \<in> set refs"
    using assms(2,3) by (auto dest: map_of_SomeD)
  then show ?thesis
    using assms(1) by (metis eq_key_imp_eq_value distinct_map inj_on_def snd_conv prod.inject)
qed

lemma map_update_entry:
  assumes "distinct (map snd refs)" and "map_of refs k = Some sa"
    and "\<forall>kv \<in> set refs. snd kv \<noteq> sa \<longrightarrow> f' (snd kv) = f (snd kv)"
  shows "map (\<lambda>(k, a). (k, f' a)) refs =
           AList.update k (f' sa) (map (\<lambda>(k, a). (k, f a)) refs)"
  using assms
proof (induction refs)
  case Nil
  then show ?case by simp
next
  case (Cons x refs)
  obtain k0 a0 where x: "x = (k0, a0)" by (cases x)
  show ?case
  proof (cases "k0 = k")
    case True
    then have a0: "a0 = sa" using Cons.prems(2) x by simp
    then have "\<forall>kv \<in> set refs. snd kv \<noteq> sa"
      using Cons.prems(1) x by auto
    then have "map (\<lambda>(k, a). (k, f' a)) refs = map (\<lambda>(k, a). (k, f a)) refs"
      using Cons.prems(3) by (auto intro!: map_cong)
    then show ?thesis using True a0 x by simp
  next
    case False
    then have m: "map_of refs k = Some sa" using Cons.prems(2) x by simp
    then have "sa \<in> snd ` set refs" by (force dest: map_of_SomeD)
    then have "a0 \<noteq> sa" using Cons.prems(1) x by auto
    then have "f' a0 = f a0" using Cons.prems(3) x by simp
    moreover have "map (\<lambda>(k, a). (k, f' a)) refs =
        AList.update k (f' sa) (map (\<lambda>(k, a). (k, f a)) refs)"
      using Cons.IH Cons.prems m by simp
    ultimately show ?thesis using False x by simp
  qed
qed

lemma copy_inv_write:
  assumes inv: "copy_inv h0 cur nxt h"
    and same: "next_addr h' = next_addr h" "dict_addrs h' nxt = dict_addrs h nxt"
    and low: "\<forall>a < next_addr h0.
        robot_cells h' a = robot_cells h a \<and> shelf_cells h' a = shelf_cells h a \<and>
        order_cells h' a = order_cells h a \<and> dict_cells h' a = dict_cells h a"
  shows "copy_inv h0 cur nxt h'"
  using assms
  by (auto simp: copy_inv_def agree_below_def above_def allocated_def unshared_def)

lemma read_frame:
  "read_shelf (h\<lparr>robot_cells := rc\<rparr>) = read_shelf h"
  "read_order (h\<lparr>robot_cells := rc\<rparr>) = read_order h"
  "read_order (h\<lparr>shelf_cells := sc\<rparr>) = read_order h"
  by (simp_all add: fun_eq_iff read_shelf_def read_order_def)

lemma copy_inv_above:
  assumes "copy_inv h0 cur nxt h"
  shows "map_of (ref_robots nxt) r = Some a \<Longrightarrow> next_addr h0 \<le> a"
    and "map_of (ref_shelves nxt) k = Some sa \<Longrightarrow>
           next_addr h0 \<le> sa \<and> next_addr h0 \<le> cell_quantities (shelf_cells h sa)"
    and "map_of (ref_orders nxt) ord = Some oa \<Longrightarrow>
           next_addr h0 \<le> oa \<and> next_addr h0 \<le> cell_requirements (order_cells h oa)"
proof -
  have ab: "above (next_addr h0) h nxt" using assms by (simp add: copy_inv_def)
  have rs: "\<forall>kv \<in> set (ref_robots nxt). next_addr h0 \<le> snd kv"
    and ss: "\<forall>kv \<in> set (ref_shelves nxt). next_addr h0 \<le> snd kv"
    and os: "\<forall>kv \<in> set (ref_orders nxt). next_addr h0 \<le> snd kv"
    and ds: "\<forall>a \<in> set (dict_addrs h nxt). next_addr h0 \<le> a"
    using ab by (simp_all add: above_def list_all_iff)
  show "next_addr h0 \<le> a" if "map_of (ref_robots nxt) r = Some a"
  proof -
    have "(r, a) \<in> set (ref_robots nxt)" using that by (rule map_of_SomeD)
    then show ?thesis using rs by fastforce
  qed
  show "next_addr h0 \<le> sa \<and> next_addr h0 \<le> cell_quantities (shelf_cells h sa)"
    if "map_of (ref_shelves nxt) k = Some sa"
  proof -
    have m: "(k, sa) \<in> set (ref_shelves nxt)" using that by (rule map_of_SomeD)
    then have "cell_quantities (shelf_cells h (snd (k, sa))) \<in> set (dict_addrs h nxt)"
      unfolding dict_addrs_def set_append set_map by blast
    then have "next_addr h0 \<le> cell_quantities (shelf_cells h sa)" using ds by simp
    moreover have "next_addr h0 \<le> snd (k, sa)" using m ss by blast
    ultimately show ?thesis by simp
  qed
  show "next_addr h0 \<le> oa \<and> next_addr h0 \<le> cell_requirements (order_cells h oa)"
    if "map_of (ref_orders nxt) ord = Some oa"
  proof -
    have m: "(ord, oa) \<in> set (ref_orders nxt)" using that by (rule map_of_SomeD)
    then have "cell_requirements (order_cells h (snd (ord, oa))) \<in> set (dict_addrs h nxt)"
      unfolding dict_addrs_def set_append set_map by blast
    then have "next_addr h0 \<le> cell_requirements (order_cells h oa)" using ds by simp
    moreover have "next_addr h0 \<le> snd (ord, oa)" using m os by blast
    ultimately show ?thesis by simp
  qed
qed

lemma write_robot:
  assumes inv: "copy_inv h0 cur nxt h" and an: "map_of (ref_robots nxt) r = Some an"
  shows "copy_inv h0 cur nxt (h\<lparr>robot_cells := (robot_cells h)(an := v)\<rparr>)"
    and "read_state (h\<lparr>robot_cells := (robot_cells h)(an := v)\<rparr>) nxt =
           (read_state h nxt)\<lparr>robots := (robots (read_state h nxt))(r \<mapsto> v)\<rparr>"
proof -
  let ?h' = "h\<lparr>robot_cells := (robot_cells h)(an := v)\<rparr>"
  have "next_addr h0 \<le> an" using copy_inv_above(1) [OF inv an] .
  then show "copy_inv h0 cur nxt ?h'"
    by (intro copy_inv_write [OF inv]) (auto simp: dict_addrs_def)
  have d: "distinct (map snd (ref_robots nxt))"
    using inv by (simp add: copy_inv_def unshared_def)
  have "map_option (robot_cells ?h') (map_of (ref_robots nxt) r') =
      ((\<lambda>r. map_option (robot_cells h) (map_of (ref_robots nxt) r))(r \<mapsto> v)) r'" for r'
  proof (cases "r' = r")
    case True
    then show ?thesis using an by simp
  next
    case False
    then have "map_of (ref_robots nxt) r' \<noteq> Some an"
      using map_of_distinct_snd [OF d an] by blast
    then show ?thesis using False by (cases "map_of (ref_robots nxt) r'") auto
  qed
  then show "read_state ?h' nxt =
      (read_state h nxt)\<lparr>robots := (robots (read_state h nxt))(r \<mapsto> v)\<rparr>"
    by (simp add: read_state_def read_frame fun_eq_iff)
qed

lemma write_shelf_pos_read:
  assumes inv: "copy_inv h0 cur nxt h"
  shows "copy_inv h0 cur nxt (write_shelf_pos (ref_shelves nxt) k p h)"
    and "read_state (write_shelf_pos (ref_shelves nxt) k p h) nxt =
           (read_state h nxt)\<lparr>shelves :=
              update_shelf k (\<lambda>sd. sd\<lparr>shelf_pos := p\<rparr>) (shelves (read_state h nxt))\<rparr>"
proof -
  let ?h' = "write_shelf_pos (ref_shelves nxt) k p h"
  have both: "copy_inv h0 cur nxt ?h' \<and>
      read_state ?h' nxt =
        (read_state h nxt)\<lparr>shelves :=
           update_shelf k (\<lambda>sd. sd\<lparr>shelf_pos := p\<rparr>) (shelves (read_state h nxt))\<rparr>"
  proof (cases "map_of (ref_shelves nxt) k")
    case None
    then show ?thesis
      using inv by (simp add: write_shelf_pos_def update_shelf_def map_of_shelves_read)
  next
    case (Some sa)
    then have h': "?h' = h\<lparr>shelf_cells := (shelf_cells h)
        (sa := (shelf_cells h sa)\<lparr>cell_pos := p\<rparr>)\<rparr>"
      by (simp add: write_shelf_pos_def)
    have "next_addr h0 \<le> sa" using copy_inv_above(2) [OF inv Some] by simp
    then have i: "copy_inv h0 cur nxt ?h'"
      unfolding h' by (intro copy_inv_write [OF inv]) (auto simp: dict_addrs_def)
    have d: "distinct (map snd (ref_shelves nxt))"
      using inv by (simp add: copy_inv_def unshared_def)
    have "map (\<lambda>(k, a). (k, read_shelf ?h' a)) (ref_shelves nxt) =
        AList.update k (read_shelf ?h' sa) (map (\<lambda>(k, a). (k, read_shelf h a)) (ref_shelves nxt))"
      using d Some by (rule map_update_entry) (simp add: h' read_shelf_def)
    moreover have "read_shelf ?h' sa = (read_shelf h sa)\<lparr>shelf_pos := p\<rparr>"
      by (simp add: h' read_shelf_def)
    ultimately have "read_state ?h' nxt =
        (read_state h nxt)\<lparr>shelves :=
           update_shelf k (\<lambda>sd. sd\<lparr>shelf_pos := p\<rparr>) (shelves (read_state h nxt))\<rparr>"
      using Some
      by (simp add: read_state_def update_shelf_def map_of_map_snd h' read_frame)
    then show ?thesis using i by simp
  qed
  show "copy_inv h0 cur nxt ?h'" using both by simp
  show "read_state ?h' nxt =
      (read_state h nxt)\<lparr>shelves :=
         update_shelf k (\<lambda>sd. sd\<lparr>shelf_pos := p\<rparr>) (shelves (read_state h nxt))\<rparr>"
    using both by simp
qed

lemma unshared_dicts:
  assumes "unshared h nxt"
  shows "kv \<in> set (ref_shelves nxt) \<Longrightarrow> kv' \<in> set (ref_shelves nxt) \<Longrightarrow>
           cell_quantities (shelf_cells h (snd kv)) = cell_quantities (shelf_cells h (snd kv')) \<Longrightarrow>
           kv = kv'"
    and "kv \<in> set (ref_orders nxt) \<Longrightarrow> kv' \<in> set (ref_orders nxt) \<Longrightarrow>
           cell_requirements (order_cells h (snd kv)) =
             cell_requirements (order_cells h (snd kv')) \<Longrightarrow>
           kv = kv'"
    and "kv \<in> set (ref_shelves nxt) \<Longrightarrow> kv' \<in> set (ref_orders nxt) \<Longrightarrow>
           cell_quantities (shelf_cells h (snd kv)) \<noteq>
             cell_requirements (order_cells h (snd kv'))"
proof -
  have d: "distinct (map (\<lambda>kv. cell_quantities (shelf_cells h (snd kv))) (ref_shelves nxt))"
    "distinct (map (\<lambda>kv. cell_requirements (order_cells h (snd kv))) (ref_orders nxt))"
    "(\<lambda>kv. cell_quantities (shelf_cells h (snd kv))) ` set (ref_shelves nxt) \<inter>
     (\<lambda>kv. cell_requirements (order_cells h (snd kv))) ` set (ref_orders nxt) = {}"
    using assms by (simp_all add: unshared_def dict_addrs_def)
  show "kv = kv'" if "kv \<in> set (ref_shelves nxt)" "kv' \<in> set (ref_shelves nxt)"
    "cell_quantities (shelf_cells h (snd kv)) = cell_quantities (shelf_cells h (snd kv'))"
    using d(1) that by (simp add: distinct_map inj_on_def)
  show "kv = kv'" if "kv \<in> set (ref_orders nxt)" "kv' \<in> set (ref_orders nxt)"
    "cell_requirements (order_cells h (snd kv)) = cell_requirements (order_cells h (snd kv'))"
    using d(2) that by (simp add: distinct_map inj_on_def)
  show "cell_quantities (shelf_cells h (snd kv)) \<noteq>
      cell_requirements (order_cells h (snd kv'))"
    if "kv \<in> set (ref_shelves nxt)" "kv' \<in> set (ref_orders nxt)"
    using d(3) that by blast
qed

lemma write_quantities:
  assumes inv: "copy_inv h0 cur nxt h" and sa: "map_of (ref_shelves nxt) k = Some sa"
  shows "copy_inv h0 cur nxt
           (h\<lparr>dict_cells := (dict_cells h)(cell_quantities (shelf_cells h sa) := d)\<rparr>)"
    and "read_state
           (h\<lparr>dict_cells := (dict_cells h)(cell_quantities (shelf_cells h sa) := d)\<rparr>) nxt =
         (read_state h nxt)\<lparr>shelves :=
            AList.update k ((read_shelf h sa)\<lparr>quantities := d\<rparr>)
              (shelves (read_state h nxt))\<rparr>"
proof -
  let ?qa = "cell_quantities (shelf_cells h sa)"
  let ?h' = "h\<lparr>dict_cells := (dict_cells h)(?qa := d)\<rparr>"
  have "next_addr h0 \<le> ?qa" using copy_inv_above(2) [OF inv sa] by simp
  then show "copy_inv h0 cur nxt ?h'"
    by (intro copy_inv_write [OF inv]) (auto simp: dict_addrs_def)
  have un: "unshared h nxt" using inv by (simp add: copy_inv_def)
  then have ds: "distinct (map snd (ref_shelves nxt))" by (simp add: unshared_def)
  have mem: "(k, sa) \<in> set (ref_shelves nxt)" using sa by (rule map_of_SomeD)
  have others: "\<forall>kv \<in> set (ref_shelves nxt). snd kv \<noteq> sa \<longrightarrow>
      read_shelf ?h' (snd kv) = read_shelf h (snd kv)"
  proof (intro ballI impI)
    fix kv assume kv: "kv \<in> set (ref_shelves nxt)" and ne: "snd kv \<noteq> sa"
    have "cell_quantities (shelf_cells h (snd kv)) \<noteq> ?qa"
      using unshared_dicts(1) [OF un kv mem] ne by auto
    then show "read_shelf ?h' (snd kv) = read_shelf h (snd kv)"
      by (simp add: read_shelf_def)
  qed
  have "map (\<lambda>(k, a). (k, read_shelf ?h' a)) (ref_shelves nxt) =
      AList.update k (read_shelf ?h' sa) (map (\<lambda>(k, a). (k, read_shelf h a)) (ref_shelves nxt))"
    using ds sa others by (rule map_update_entry)
  moreover have "read_shelf ?h' sa = (read_shelf h sa)\<lparr>quantities := d\<rparr>"
    by (simp add: read_shelf_def)
  moreover have "map_option (read_order ?h') (map_of (ref_orders nxt) ord) =
      map_option (read_order h) (map_of (ref_orders nxt) ord)" for ord
  proof (cases "map_of (ref_orders nxt) ord")
    case None
    then show ?thesis by simp
  next
    case (Some oa)
    then have "(ord, oa) \<in> set (ref_orders nxt)" by (rule map_of_SomeD)
    then have "?qa \<noteq> cell_requirements (order_cells h oa)"
      using unshared_dicts(3) [OF un mem] by fastforce
    then show ?thesis using Some by (simp add: read_order_def)
  qed
  ultimately show "read_state ?h' nxt =
      (read_state h nxt)\<lparr>shelves :=
         AList.update k ((read_shelf h sa)\<lparr>quantities := d\<rparr>) (shelves (read_state h nxt))\<rparr>"
    by (simp add: read_state_def)
qed

lemma write_requirements:
  assumes inv: "copy_inv h0 cur nxt h" and oa: "map_of (ref_orders nxt) ord = Some oa"
  shows "copy_inv h0 cur nxt
           (h\<lparr>dict_cells := (dict_cells h)(cell_requirements (order_cells h oa) := d)\<rparr>)"
    and "read_state
           (h\<lparr>dict_cells := (dict_cells h)(cell_requirements (order_cells h oa) := d)\<rparr>) nxt =
         (read_state h nxt)\<lparr>orders :=
            (orders (read_state h nxt))(ord \<mapsto> (read_order h oa)\<lparr>requirements := d\<rparr>)\<rparr>"
proof -
  let ?ra = "cell_requirements (order_cells h oa)"
  let ?h' = "h\<lparr>dict_cells := (dict_cells h)(?ra := d)\<rparr>"
  have "next_addr h0 \<le> ?ra" using copy_inv_above(3) [OF inv oa] by simp
  then show "copy_inv h0 cur nxt ?h'"
    by (intro copy_inv_write [OF inv]) (auto simp: dict_addrs_def)
  have un: "unshared h nxt" using inv by (simp add: copy_inv_def)
  then have ds: "distinct (map snd (ref_orders nxt))" by (simp add: unshared_def)
  have mem: "(ord, oa) \<in> set (ref_orders nxt)" using oa by (rule map_of_SomeD)
  have "map (\<lambda>(k, a). (k, read_shelf ?h' a)) (ref_shelves nxt) =
      map (\<lambda>(k, a). (k, read_shelf h a)) (ref_shelves nxt)"
  proof (rule map_cong [OF refl])
    fix kv assume kv: "kv \<in> set (ref_shelves nxt)"
    have "cell_quantities (shelf_cells h (snd kv)) \<noteq> ?ra"
      using unshared_dicts(3) [OF un kv mem] by simp
    then show "(case kv of (k, a) \<Rightarrow> (k, read_shelf ?h' a)) =
        (case kv of (k, a) \<Rightarrow> (k, read_shelf h a))"
      by (cases kv) (simp add: read_shelf_def)
  qed
  moreover have "map_option (read_order ?h') (map_of (ref_orders nxt) ord') =
      ((\<lambda>x. map_option (read_order h) (map_of (ref_orders nxt) x))
         (ord \<mapsto> (read_order h oa)\<lparr>requirements := d\<rparr>)) ord'" for ord'
  proof (cases "ord' = ord")
    case True
    then show ?thesis using oa by (simp add: read_order_def)
  next
    case False
    show ?thesis
    proof (cases "map_of (ref_orders nxt) ord'")
      case None
      then show ?thesis using False by simp
    next
      case (Some oa')
      then have m': "(ord', oa') \<in> set (ref_orders nxt)" by (rule map_of_SomeD)
      have "cell_requirements (order_cells h oa') \<noteq> ?ra"
        using unshared_dicts(2) [OF un m' mem] False by auto
      then show ?thesis using Some False by (simp add: read_order_def)
    qed
  qed
  ultimately show "read_state ?h' nxt =
      (read_state h nxt)\<lparr>orders :=
         (orders (read_state h nxt))(ord \<mapsto> (read_order h oa)\<lparr>requirements := d\<rparr>)\<rparr>"
    by (simp add: read_state_def fun_eq_iff)
qed

section \<open>The update on the store follows the update on states\<close>

lemma pickup_heap_refines:
  assumes inv: "copy_inv h0 cur nxt h" and an: "map_of (ref_robots nxt) r = Some an"
  shows "refines h0 cur nxt (pickup_heap cur nxt h rc an)
           (pickup (read_state h cur) (read_state h nxt) r rc (robot_cells h an))"
proof (cases "truthy (carries rc)")
  case (Some c)
  then show ?thesis by (simp add: refines_def pickup_def pickup_heap_def)
next
  case None
  show ?thesis
  proof (cases "truthy (shelf_to_pickup (shelves (read_state h cur)) (pos rc))")
    case n: None
    then show ?thesis
      using None
      by (simp add: refines_def pickup_def pickup_heap_def shelf_to_pickup_heap_read
          read_state_simps)
  next
    case (Some k)
    let ?h1 = "write_carries an (Some k) h"
    let ?h2 = "write_shelf_pos (ref_shelves nxt) k None ?h1"
    have h1: "?h1 = h\<lparr>robot_cells := (robot_cells h)(an := (robot_cells h an)\<lparr>carries := Some k\<rparr>)\<rparr>"
      by (simp add: write_carries_def)
    have i1: "copy_inv h0 cur nxt ?h1"
      and r1: "read_state ?h1 nxt = (read_state h nxt)\<lparr>robots :=
          (robots (read_state h nxt))(r \<mapsto> (robot_cells h an)\<lparr>carries := Some k\<rparr>)\<rparr>"
      unfolding h1 using write_robot [OF inv an] by blast+
    have i2: "copy_inv h0 cur nxt ?h2"
      and r2: "read_state ?h2 nxt = (read_state ?h1 nxt)\<lparr>shelves :=
          update_shelf k (\<lambda>sd. sd\<lparr>shelf_pos := None\<rparr>) (shelves (read_state ?h1 nxt))\<rparr>"
      using write_shelf_pos_read [OF i1] by blast+
    have "pickup_heap cur nxt h rc an = Done ?h2"
      using None Some
      by (simp add: pickup_heap_def shelf_to_pickup_heap_read read_state_simps)
    moreover have "pickup (read_state h cur) (read_state h nxt) r rc (robot_cells h an) =
        Done (read_state ?h2 nxt)"
      using None Some by (simp add: pickup_def r2 r1)
    ultimately show ?thesis using i2 by (simp add: refines_def)
  qed
qed

lemma putdown_heap_refines:
  assumes inv: "copy_inv h0 cur nxt h" and an: "map_of (ref_robots nxt) r = Some an"
  shows "refines h0 cur nxt (putdown_heap nxt h rc an)
           (putdown (read_state h nxt) r rc (robot_cells h an))"
proof (cases "truthy (carries rc)")
  case None
  then show ?thesis by (simp add: refines_def putdown_def putdown_heap_def)
next
  case (Some k)
  show ?thesis
  proof (cases "pos rc \<in> ref_highways nxt \<or> occupied_heap h (ref_shelves nxt) (pos rc) k")
    case True
    then show ?thesis
      using Some
      by (auto simp: refines_def putdown_def putdown_heap_def occupied_heap_read
          read_state_simps)
  next
    case False
    let ?h1 = "write_carries an None h"
    let ?h2 = "write_shelf_pos (ref_shelves nxt) k (Some (pos rc)) ?h1"
    have h1: "?h1 = h\<lparr>robot_cells := (robot_cells h)(an := (robot_cells h an)\<lparr>carries := None\<rparr>)\<rparr>"
      by (simp add: write_carries_def)
    have i1: "copy_inv h0 cur nxt ?h1"
      and r1: "read_state ?h1 nxt = (read_state h nxt)\<lparr>robots :=
          (robots (read_state h nxt))(r \<mapsto> (robot_cells h an)\<lparr>carries := None\<rparr>)\<rparr>"
      unfolding h1 using write_robot [OF inv an] by blast+
    have i2: "copy_inv h0 cur nxt ?h2"
      and r2: "read_state ?h2 nxt = (read_state ?h1 nxt)\<lparr>shelves :=
          update_shelf k (\<lambda>sd. sd\<lparr>shelf_pos := Some (pos rc)\<rparr>)
            (shelves (read_state ?h1 nxt))\<rparr>"
      using write_shelf_pos_read [OF i1] by blast+
    have "putdown_heap nxt h rc an = Done ?h2"
      using False Some by (simp add: putdown_heap_def)
    moreover have "putdown (read_state h nxt) r rc (robot_cells h an) =
        Done (read_state ?h2 nxt)"
      using False Some
      by (simp add: putdown_def r2 r1 occupied_heap_read read_state_simps)
    ultimately show ?thesis using i2 by (simp add: refines_def)
  qed
qed
lemma deliver_heap_refines:
  assumes inv: "copy_inv h0 cur nxt h"
  shows "refines h0 cur nxt (deliver_heap nxt h rc order_id p u)
           (deliver (read_state h nxt) rc order_id p u)"
proof (cases "truthy (carries rc)")
  case None
  then show ?thesis by (simp add: refines_def deliver_def deliver_heap_def)
next
  case (Some k)
  show ?thesis
  proof (cases "map_of (ref_shelves nxt) k")
    case None
    then show ?thesis
      using Some by (simp add: refines_def deliver_def deliver_heap_def map_of_shelves_read map_of_map_snd)
  next
    case sa: (Some sa)
    show ?thesis
    proof (cases "map_of (ref_orders nxt) order_id")
      case None
      then show ?thesis
        using Some sa
        by (simp add: refines_def deliver_def deliver_heap_def map_of_shelves_read map_of_map_snd
            read_state_simps)
    next
      case oa: (Some oa)
      let ?qa = "cell_quantities (shelf_cells h sa)"
      show ?thesis
      proof (cases "dict_cells h ?qa p")
        case None
        then show ?thesis
          using Some sa oa
          by (simp add: refines_def deliver_def deliver_heap_def map_of_shelves_read map_of_map_snd
              read_state_simps read_shelf_def)
      next
        case q: (Some q)
        let ?sid = "cell_station_id (order_cells h oa)"
        let ?station = "if ?sid \<noteq> [] then ref_picking_stations nxt ?sid else None"
        show ?thesis
        proof (cases "Some (pos rc) \<noteq> ?station \<or> q < int u")
          case True
          then show ?thesis
            using Some sa oa q
            by (auto simp: refines_def deliver_def deliver_heap_def map_of_shelves_read map_of_map_snd
                read_state_simps read_shelf_def read_order_def Let_def)
        next
          case False
          define h1 where
            "h1 = h\<lparr>dict_cells := (dict_cells h)(?qa := (dict_cells h ?qa)(p \<mapsto> q - int u))\<rparr>"
          define ra where "ra = cell_requirements (order_cells h1 oa)"
          define h2 where
            "h2 = h1\<lparr>dict_cells := (dict_cells h1)
               (ra := decrement_requirement (dict_cells h1 ra) p u)\<rparr>"
          have i1: "copy_inv h0 cur nxt h1"
            and r1: "read_state h1 nxt = (read_state h nxt)\<lparr>shelves :=
                AList.update k
                  ((read_shelf h sa)\<lparr>quantities := (dict_cells h ?qa)(p \<mapsto> q - int u)\<rparr>)
                  (shelves (read_state h nxt))\<rparr>"
            unfolding h1_def using write_quantities [OF inv sa] by blast+
          have i2: "copy_inv h0 cur nxt h2"
            and r2: "read_state h2 nxt = (read_state h1 nxt)\<lparr>orders :=
                (orders (read_state h1 nxt))
                  (order_id \<mapsto> (read_order h1 oa)\<lparr>requirements :=
                     decrement_requirement (dict_cells h1 ra) p u\<rparr>)\<rparr>"
            unfolding h2_def ra_def using write_requirements [OF i1 oa] by blast+
          have un: "unshared h nxt" using inv by (simp add: copy_inv_def)
          have "(k, sa) \<in> set (ref_shelves nxt)" "(order_id, oa) \<in> set (ref_orders nxt)"
            using sa oa by (auto dest: map_of_SomeD)
          then have ne: "?qa \<noteq> cell_requirements (order_cells h oa)"
            using unshared_dicts(3) [OF un] by fastforce
          then have ro: "read_order h1 oa = read_order h oa"
            and dr: "dict_cells h1 ra = requirements (read_order h oa)"
            by (simp_all add: read_order_def h1_def ra_def)
          have heap_side: "deliver_heap nxt h rc order_id p u = Done h2"
            using False Some sa oa q
            by (simp add: deliver_heap_def Let_def h2_def ra_def h1_def)
          have ms: "map_of (shelves (read_state h nxt)) k = Some (read_shelf h sa)"
            using sa by (simp add: map_of_shelves_read)
          have mo: "orders (read_state h nxt) order_id = Some (read_order h oa)"
            using oa by (simp add: read_state_simps)
          have qs: "quantities (read_shelf h sa) p = Some q"
            "quantities (read_shelf h sa) = dict_cells h ?qa"
            using q by (simp_all add: read_shelf_def)
          have st: "station_id (read_order h oa) = ?sid"
            by (simp add: read_order_def)
          have "deliver (read_state h nxt) rc order_id p u =
              Done ((read_state h nxt)
                \<lparr>shelves := AList.update k
                   ((read_shelf h sa)\<lparr>quantities := (dict_cells h ?qa)(p \<mapsto> q - int u)\<rparr>)
                   (shelves (read_state h nxt)),
                 orders := (orders (read_state h nxt))
                   (order_id \<mapsto> (read_order h oa)\<lparr>requirements :=
                      decrement_requirement (requirements (read_order h oa)) p u\<rparr>)\<rparr>)"
            using False Some q
            by (simp add: deliver_def Let_def ms mo qs(2) st read_state_simps(3))
          also have "\<dots> = Done (read_state h2 nxt)"
            unfolding r2 r1 ro dr by simp
          finally show ?thesis using heap_side i2 by (simp add: refines_def)
        qed
      qed
    qed
  qed
qed

lemma apply_action_heap_refines:
  assumes inv: "copy_inv h0 cur nxt h"
  shows "refines h0 cur nxt (apply_action_heap cur nxt h a)
           (apply_action (read_state h0 cur) (read_state h nxt) a)"
proof -
  have cur_eq: "read_state h cur = read_state h0 cur"
    using inv by (intro read_state_agree_below) (simp_all add: copy_inv_def)
  obtain r act where a: "a = (r, act)" by (cases a)
  show ?thesis
  proof (cases "map_of (ref_robots cur) r")
    case None
    then have "robots (read_state h0 cur) r = None"
      by (simp add: read_state_simps)
    then show ?thesis
      using None a by (simp add: refines_def apply_action_def apply_action_heap_def)
  next
    case (Some ac)
    have rc: "robots (read_state h0 cur) r = Some (robot_cells h ac)"
      using Some cur_eq [symmetric] by (simp add: read_state_simps)
    show ?thesis
    proof (cases "map_of (ref_robots nxt) r")
      case None
      then have "robots (read_state h nxt) r = None"
        by (simp add: read_state_simps)
      then show ?thesis
        using None Some rc a
        by (simp add: refines_def apply_action_def apply_action_heap_def)
    next
      case an: (Some an)
      have rn: "robots (read_state h nxt) r = Some (robot_cells h an)"
        using an by (simp add: read_state_simps)
      show ?thesis
      proof (cases act)
        case (Move dx dy)
        let ?v = "(robot_cells h an)\<lparr>pos := (fst (pos (robot_cells h ac)) + dx,
                     snd (pos (robot_cells h ac)) + dy)\<rparr>"
        have "apply_action_heap cur nxt h a =
            Done (h\<lparr>robot_cells := (robot_cells h)(an := ?v)\<rparr>)"
          using Some an a Move by (simp add: apply_action_heap_def)
        moreover have "apply_action (read_state h0 cur) (read_state h nxt) a =
            Done ((read_state h nxt)\<lparr>robots := (robots (read_state h nxt))(r \<mapsto> ?v)\<rparr>)"
          using rc rn a Move by (simp add: apply_action_def)
        ultimately show ?thesis
          using write_robot [OF inv an, of ?v] by (simp add: refines_def)
      next
        case Pickup
        then show ?thesis
          using pickup_heap_refines [OF inv an, of "robot_cells h ac"] Some an rc rn a cur_eq
          by (simp add: apply_action_def apply_action_heap_def)
      next
        case Putdown
        then show ?thesis
          using putdown_heap_refines [OF inv an, of "robot_cells h ac"] Some an rc rn a
          by (simp add: apply_action_def apply_action_heap_def)
      next
        case (Deliver order_id p u)
        then show ?thesis
          using deliver_heap_refines [OF inv, of "robot_cells h ac" order_id p u]
            Some an rc rn a
          by (simp add: apply_action_def apply_action_heap_def)
      qed
    qed
  qed
qed

lemma apply_actions_heap_refines:
  "copy_inv h0 cur nxt h \<Longrightarrow>
   apply_actions (read_state h0 cur) (read_state h nxt) acts = Inr s' \<Longrightarrow>
   \<exists>h'. apply_actions_heap cur nxt h acts = Inr h' \<and> read_state h' nxt = s' \<and>
        copy_inv h0 cur nxt h'"
proof (induction acts arbitrary: h)
  case Nil
  then show ?case by simp
next
  case (Cons a acts)
  note ref = apply_action_heap_refines [OF Cons.prems(1), of a]
  show ?case
  proof (cases "apply_action (read_state h0 cur) (read_state h nxt) a")
    case (Done s1)
    then obtain h1 where h1: "apply_action_heap cur nxt h a = Done h1"
      and r1: "read_state h1 nxt = s1" and i1: "copy_inv h0 cur nxt h1"
      using ref by (auto simp: refines_def split: outcome.splits)
    have "apply_actions (read_state h0 cur) (read_state h1 nxt) acts = Inr s'"
      using Cons.prems(2) Done r1 by simp
    from Cons.IH [OF i1 this] show ?thesis using h1 by simp
  next
    case (Skipped w)
    then have "apply_action_heap cur nxt h a = Skipped w"
      using ref by (simp add: refines_def)
    moreover have "apply_actions (read_state h0 cur) (read_state h nxt) acts = Inr s'"
      using Cons.prems(2) Skipped by simp
    ultimately show ?thesis using Cons.IH [OF Cons.prems(1)] by simp
  next
    case (Raised e)
    then show ?thesis using Cons.prems(2) by simp
  qed
qed

text \<open>
  The call on the store returns, leaves every object of its argument as it was, and its
  result reads as the result of \<open>update_state\<close> on the state that the argument reads as.
\<close>

lemma update_state_heap_refines:
  assumes "allocated h cur"
  shows "\<exists>nxt h'. update_state_heap cur acts h = Inr (nxt, h') \<and>
           update_state (read_state h cur) acts = Inr (read_state h' nxt) \<and>
           read_state h' cur = read_state h cur \<and>
           copy_inv h cur nxt h'"
proof -
  obtain nxt h1 where c: "deepcopy cur h = (nxt, h1)" by (cases "deepcopy cur h")
  have i1: "copy_inv h cur nxt h1" and r1: "read_state h1 nxt = read_state h cur"
    using deepcopy_correct [OF assms c] by blast+
  obtain s' where s': "update_state (read_state h cur) acts = Inr s'"
    using update_state_total by blast
  then have "apply_actions (read_state h cur) (read_state h1 nxt) acts = Inr s'"
    by (simp add: update_state_def r1)
  then obtain h' where h': "apply_actions_heap cur nxt h1 acts = Inr h'"
    and r': "read_state h' nxt = s'" and i': "copy_inv h cur nxt h'"
    using apply_actions_heap_refines [OF i1] by blast
  have "read_state h' cur = read_state h cur"
    using i' by (intro read_state_agree_below) (simp_all add: copy_inv_def)
  moreover have "update_state_heap cur acts h = Inr (nxt, h')"
    using c h' by (simp add: update_state_heap_def)
  ultimately show ?thesis using s' r' i' by blast
qed

section \<open>The call does not touch its argument\<close>

lemma allocated_later:
  assumes "allocated h0 ref" and "agree_below (next_addr h0) h0 h"
    and "next_addr h0 \<le> next_addr h"
  shows "allocated h ref"
proof -
  note al = allocated_dicts [OF assms(1)]
  have "dict_addrs h ref = dict_addrs h0 ref"
    using al(4,5) assms(2) by (auto simp: dict_addrs_def agree_below_def)
  then show ?thesis
    using assms(1,3) by (auto simp: allocated_def list_all_iff)
qed

text \<open>
  C3. For a state laid out in the store (its objects in use, none shared between two
  entries) and every list of actions: the call returns; every field of its argument
  reads after the call as before it; and a second call on the same argument and
  actions returns a state that reads as the result of the first call does, while the
  first result and the argument still read as they did.
\<close>

theorem update_state_leaves_input:
  assumes "laid_out h cur"
  shows "\<exists>nxt h'.
           update_state_heap cur acts h = Inr (nxt, h') \<and>
           read_state h' cur = read_state h cur \<and>
           (\<exists>nxt2 h''.
              update_state_heap cur acts h' = Inr (nxt2, h'') \<and>
              read_state h'' nxt2 = read_state h' nxt \<and>
              read_state h'' nxt = read_state h' nxt \<and>
              read_state h'' cur = read_state h cur)"
proof -
  have al: "allocated h cur" using assms by (simp add: laid_out_def)
  obtain nxt h' where c1: "update_state_heap cur acts h = Inr (nxt, h')"
    and p1: "update_state (read_state h cur) acts = Inr (read_state h' nxt)"
    and k1: "read_state h' cur = read_state h cur"
    and i1: "copy_inv h cur nxt h'"
    using update_state_heap_refines [OF al] by blast
  have al': "allocated h' cur"
    using i1 by (intro allocated_later [of h cur h']) (simp_all add: copy_inv_def)
  obtain nxt2 h'' where c2: "update_state_heap cur acts h' = Inr (nxt2, h'')"
    and p2: "update_state (read_state h' cur) acts = Inr (read_state h'' nxt2)"
    and k2: "read_state h'' cur = read_state h' cur"
    and i2: "copy_inv h' cur nxt2 h''"
    using update_state_heap_refines [OF al'] by blast
  have same: "read_state h'' nxt2 = read_state h' nxt"
    using p1 p2 k1 by simp
  have "allocated h' nxt" using i1 by (simp add: copy_inv_def)
  then have kept: "read_state h'' nxt = read_state h' nxt"
    using i2 by (intro read_state_agree_below) (simp_all add: copy_inv_def)
  show ?thesis
    using c1 k1 c2 same kept k2 by auto
qed

lemma scenario_laid_out:
  "laid_out scenario_heap scenario_ref"
  "read_state scenario_heap scenario_ref = scenario_state"
  by (simp_all add: laid_out_def allocated_def unshared_def dict_addrs_def scenario_heap_def
      scenario_ref_def read_state_def read_shelf_def read_order_def scenario_state_def
      fun_eq_iff)

theorem update_state_leaves_input_witness:
  "laid_out scenario_heap scenario_ref \<and>
   read_state scenario_heap scenario_ref = scenario_state \<and>
   (\<exists>nxt h'.
      update_state_heap scenario_ref [(''r1'', Pickup)] scenario_heap = Inr (nxt, h') \<and>
      read_state h' scenario_ref = scenario_state \<and>
      (\<exists>nxt2 h''.
         update_state_heap scenario_ref [(''r1'', Pickup)] h' = Inr (nxt2, h'') \<and>
         read_state h'' nxt2 = read_state h' nxt \<and>
         read_state h'' nxt = read_state h' nxt \<and>
         read_state h'' scenario_ref = scenario_state))"
  using update_state_leaves_input [OF scenario_laid_out(1), of "[(''r1'', Pickup)]"]
    scenario_laid_out
  by simp

text \<open>
  The copy is what protects the argument: the loop run with \<open>next_state\<close> bound to the
  argument itself writes the Pickup into the objects of the argument.
\<close>

lemma loop_without_copy_writes_input:
  "\<exists>h'. apply_actions_heap scenario_ref scenario_ref scenario_heap [(''r1'', Pickup)] = Inr h' \<and>
        robots (read_state h' scenario_ref) ''r1'' =
          Some \<lparr>pos = (1, 1), carries = Some ''s1''\<rparr> \<and>
        read_state h' scenario_ref \<noteq> scenario_state"
proof -
  have "robots scenario_state ''r1'' \<noteq> Some \<lparr>pos = (1, 1), carries = Some ''s1''\<rparr>"
    by (simp add: scenario_state_def)
  moreover have "\<exists>h'.
      apply_actions_heap scenario_ref scenario_ref scenario_heap [(''r1'', Pickup)] = Inr h' \<and>
      robots (read_state h' scenario_ref) ''r1'' =
        Some \<lparr>pos = (1, 1), carries = Some ''s1''\<rparr>"
    by (simp add: apply_action_heap_def pickup_heap_def truthy_def write_carries_def
        write_shelf_pos_def scenario_heap_def scenario_ref_def read_state_def)
  ultimately show ?thesis by metis
qed

end
